theory Spec2Isabelle
  imports Complex_Main "HOL-Library.Word"
begin

section \<open>Common types\<close>

text \<open>
  \<^verbatim>\<open>size_t\<close> is a 64-bit unsigned integer whose arithmetic wraps around;
  \<^verbatim>\<open>time_t\<close> counts whole seconds and is an integer.  A \<^verbatim>\<open>vec\<close>
  (\<^verbatim>\<open>std::vector<uint8_t>\<close>) and a \<^verbatim>\<open>std::string\<close> are both byte
  sequences, so both are \<^typ>\<open>string\<close> and \<^verbatim>\<open>vec_from_string\<close> is the identity.
\<close>

type_synonym size_t = "64 word"

type_synonym time_t = int

type_synonym vec = string

definition newline :: char where
  "newline = CHR 0x0A"

section \<open>The MRU index (p4/common/mru.cc)\<close>

text \<open>
  \<^verbatim>\<open>mru_manager::Internal\<close>: the deque \<^verbatim>\<open>mru\<close>, front first, and the
  capacity \<^verbatim>\<open>max\<close> given to the constructor.  \<^verbatim>\<open>push_back\<close> appends at
  the right end of the list, so the most recently inserted key is the last one.
\<close>

record mru_manager =
  mru :: "string list"
  max_m :: nat

definition mru_manager_new :: "nat \<Rightarrow> mru_manager" where
  "mru_manager_new elements = \<lparr>mru = [], max_m = elements\<rparr>"

text \<open>
  The loop of \<^verbatim>\<open>mru_manager::remove\<close>: walk from \<^verbatim>\<open>begin()\<close>, erase the
  first element equal to \<^verbatim>\<open>elt\<close> and \<^verbatim>\<open>break\<close>.
\<close>

fun erase_first :: "string \<Rightarrow> string list \<Rightarrow> string list" where
  "erase_first elt [] = []"
| "erase_first elt (x # xs) = (if x = elt then xs else x # erase_first elt xs)"

definition mru_remove :: "string \<Rightarrow> mru_manager \<Rightarrow> mru_manager" where
  "mru_remove elt m = m\<lparr>mru := erase_first elt (mru m)\<rparr>"

text \<open>
  \<^verbatim>\<open>mru_manager::insert\<close> is \<^verbatim>\<open>this->remove(elt)\<close> followed by
  \<^verbatim>\<open>mru.push_back(elt)\<close>; the field \<^verbatim>\<open>max\<close> is not read.
\<close>

definition mru_insert :: "string \<Rightarrow> mru_manager \<Rightarrow> mru_manager" where
  "mru_insert elt m = (let m1 = mru_remove elt m in m1\<lparr>mru := mru m1 @ [elt]\<rparr>)"

definition mru_clear :: "mru_manager \<Rightarrow> mru_manager" where
  "mru_clear m = m\<lparr>mru := []\<rparr>"

datatype mru_op = Insert string | Remove string | Clear

fun mru_apply :: "mru_op \<Rightarrow> mru_manager \<Rightarrow> mru_manager" where
  "mru_apply (Insert k) m = mru_insert k m"
| "mru_apply (Remove k) m = mru_remove k m"
| "mru_apply Clear m = mru_clear m"

fun mru_run :: "mru_op list \<Rightarrow> mru_manager \<Rightarrow> mru_manager" where
  "mru_run [] m = m"
| "mru_run (x # xs) m = mru_run xs (mru_apply x m)"

text \<open>
  The loop of \<^verbatim>\<open>mru_manager::get\<close>: the iterator starts at
  \<^verbatim>\<open>end() - 1\<close> (index \<open>size - 1\<close>) and every round appends a newline and
  \<^verbatim>\<open>*it\<close>, then decrements; the loop stops, without a round, when the iterator
  equals \<^verbatim>\<open>begin()\<close> (index 0).
\<close>

fun get_loop :: "string list \<Rightarrow> nat \<Rightarrow> string \<Rightarrow> string" where
  "get_loop d 0 rv = rv"
| "get_loop d (Suc n) rv = get_loop d n (rv @ [newline] @ d ! Suc n)"

text \<open>
  \<^verbatim>\<open>mru_manager::get\<close> starts from \<^verbatim>\<open>string rv(*mru.end())\<close>, a read one
  slot past the last key: \<open>past_end\<close> is whatever string that slot holds.  On an empty
  deque \<^verbatim>\<open>end() - 1\<close> lies before \<^verbatim>\<open>begin()\<close> and the decreasing iterator
  never meets it: the walk leaves the deque and no result is returned (\<open>None\<close>).
\<close>

definition mru_get :: "string \<Rightarrow> mru_manager \<Rightarrow> string option" where
  "mru_get past_end m =
     (if mru m = [] then None
      else Some (get_loop (mru m) (length (mru m) - 1) past_end))"

text \<open>
  What the specification asks of \<^verbatim>\<open>get\<close>: the held keys, most recent first,
  separated by newlines; the empty string on an empty index.
\<close>

fun join_lines :: "string list \<Rightarrow> string" where
  "join_lines [] = []"
| "join_lines [k] = k"
| "join_lines (k # ks) = k @ [newline] @ join_lines ks"

definition get_spec :: "mru_manager \<Rightarrow> string" where
  "get_spec m = join_lines (rev (mru m))"

section \<open>The quota tracker (p4/common/quota\_tracker.cc)\<close>

record event =
  when_t :: time_t
  amnt :: size_t

text \<open>
  \<^verbatim>\<open>quota_tracker::Internal\<close>.  The constructor initialises \<^verbatim>\<open>max\<close> and
  \<^verbatim>\<open>dur\<close> only; \<^verbatim>\<open>events\<close> starts empty and \<^verbatim>\<open>q_amt\<close> is left
  uninitialised, so its first content is a parameter of the model.  \<^verbatim>\<open>dur\<close> is a
  \<^verbatim>\<open>double\<close> number of seconds.
\<close>

record quota_tracker =
  events :: "event list"
  q_amt :: size_t
  max_q :: size_t
  dur :: real

definition quota_tracker_new :: "size_t \<Rightarrow> real \<Rightarrow> size_t \<Rightarrow> quota_tracker" where
  "quota_tracker_new amount duration uninit =
     \<lparr>events = [], q_amt = uninit, max_q = amount, dur = duration\<rparr>"

text \<open>
  The copy constructor builds a new \<^verbatim>\<open>Internal(other.max, other.dur)\<close> and then
  assigns \<^verbatim>\<open>events\<close>; \<^verbatim>\<open>q_amt\<close> of the copy is again uninitialised.
\<close>

definition quota_tracker_copy :: "quota_tracker \<Rightarrow> size_t \<Rightarrow> quota_tracker" where
  "quota_tracker_copy other uninit =
     (quota_tracker_new (max_q other) (dur other) uninit)\<lparr>events := events other\<rparr>"

definition difftime :: "time_t \<Rightarrow> time_t \<Rightarrow> real" where
  "difftime t1 t0 = real_of_int (t1 - t0)"

text \<open>
  The eviction loop of \<^verbatim>\<open>check\<close>: every event with
  \<^verbatim>\<open>difftime(cur_time, when) > dur\<close> is erased (the index is stepped back after
  an erase, so no event is skipped).
\<close>

fun evict :: "time_t \<Rightarrow> real \<Rightarrow> event list \<Rightarrow> event list" where
  "evict cur_time d [] = []"
| "evict cur_time d (e # es) =
     (if difftime cur_time (when_t e) > d then evict cur_time d es
      else e # evict cur_time d es)"

text \<open>
  \<^verbatim>\<open>check\<close> reads the clock (\<open>cur_time\<close>), evicts, and compares
  \<^verbatim>\<open>q_amt + amount > max\<close> in \<^verbatim>\<open>size_t\<close> arithmetic.  It returns the answer
  and the tracker with its pruned queue.
\<close>

definition check :: "time_t \<Rightarrow> size_t \<Rightarrow> quota_tracker \<Rightarrow> bool \<times> quota_tracker" where
  "check cur_time amount qt =
     (let qt1 = qt\<lparr>events := evict cur_time (dur qt) (events qt)\<rparr>
      in if q_amt qt1 + amount > max_q qt1 then (False, qt1) else (True, qt1))"

definition add :: "time_t \<Rightarrow> size_t \<Rightarrow> quota_tracker \<Rightarrow> quota_tracker" where
  "add t amount qt =
     qt\<lparr>q_amt := q_amt qt + amount,
        events := events qt @ [\<lparr>when_t = t, amnt = amount\<rparr>]\<rparr>"

text \<open>
  What the specification asks of \<^verbatim>\<open>check\<close> at wall time \<open>t\<close>: the amount plus
  the amounts of the recorded events with timestamp \<open>> t - duration\<close> is at most
  \<open>max_amount\<close>.  \<open>recorded\<close> is the list of all events ever added.
\<close>

definition recent_sum :: "real \<Rightarrow> event list \<Rightarrow> time_t \<Rightarrow> nat" where
  "recent_sum duration recorded t =
     sum_list (map (\<lambda>e. unat (amnt e))
       (filter (\<lambda>e. real_of_int (when_t e) > real_of_int t - duration) recorded))"

definition check_spec :: "size_t \<Rightarrow> real \<Rightarrow> event list \<Rightarrow> time_t \<Rightarrow> size_t \<Rightarrow> bool" where
  "check_spec max_amount duration recorded t amount =
     (unat amount + recent_sum duration recorded t \<le> unat max_amount)"

section \<open>The sharded hash table (p3/common/hashtable.h, p5/common/hashtable.h)\<close>

text \<open>
  \<^verbatim>\<open>ConcurrentHashTable<K, V>\<close> of p3: a vector of buckets, each with a
  \<^verbatim>\<open>shared_mutex\<close> and a vector of key/value pairs in insertion order.  The
  operations are modelled as one thread runs them, one after the other.  Every path
  through them releases an exclusive lock it took, so between two operations a lock is
  only ever held in shared mode: \<open>mtx\<close> counts the shared holds on the bucket's lock
  that have not been released.  \<^verbatim>\<open>lock_shared()\<close> adds a hold, \<^verbatim>\<open>unlock()\<close>
  after it removes one, and \<^verbatim>\<open>lock()\<close> on a lock with a hold left never returns:
  the operation has no result (\<open>None\<close>).

  \<^verbatim>\<open>std::hash<K>\<close> is the parameter \<open>key_hash\<close>.  The bucket index is
  \<^verbatim>\<open>key_hash(key) % hashTable.size()\<close>: on a table constructed with zero buckets
  this is a division by zero and the operation has no result either.

  A callback (\<^verbatim>\<open>std::function<void()>\<close>) acts on the state \<open>'s\<close> that its closure
  captured; the operation returns that state as the callback left it.
\<close>

record ('k, 'v) bucket =
  mtx :: nat
  elements :: "('k \<times> 'v) list"

type_synonym ('k, 'v) table = "('k, 'v) bucket list"

definition ConcurrentHashTable :: "nat \<Rightarrow> ('k, 'v) table" where
  "ConcurrentHashTable buckets = replicate buckets \<lparr>mtx = 0, elements = []\<rparr>"

text \<open>
  The search loop of the p3 table: the index of the first pair of the bucket whose key
  equals \<open>key\<close>.
\<close>

fun find_key :: "'k \<Rightarrow> ('k \<times> 'v) list \<Rightarrow> nat option" where
  "find_key key [] = None"
| "find_key key (e # es) =
     (if fst e = key then Some 0 else map_option Suc (find_key key es))"

text \<open>
  \<^verbatim>\<open>clear\<close>: \<^verbatim>\<open>lock()\<close> on every bucket, then each bucket is emptied and
  unlocked.
\<close>

definition clear_p3 :: "('k, 'v) table \<Rightarrow> ('k, 'v) table option" where
  "clear_p3 hashTable =
     (if list_ex (\<lambda>b. mtx b \<noteq> 0) hashTable then None
      else Some (map (\<lambda>b. b\<lparr>elements := []\<rparr>) hashTable))"

text \<open>\<^verbatim>\<open>insert\<close> starts with \<^verbatim>\<open>mtx.lock()\<close> on the key's bucket.\<close>

definition insert_p3 ::
  "('k \<Rightarrow> nat) \<Rightarrow> 'k \<Rightarrow> 'v \<Rightarrow> ('s \<Rightarrow> 's) \<Rightarrow> ('k, 'v) table \<Rightarrow> 's
     \<Rightarrow> (bool \<times> ('k, 'v) table \<times> 's) option" where
  "insert_p3 key_hash key val on_success hashTable s =
     (if length hashTable = 0 then None
      else
        let index = key_hash key mod length hashTable in
        if mtx (hashTable ! index) \<noteq> 0 then None
        else
          case find_key key (elements (hashTable ! index)) of
            Some i \<Rightarrow> Some (False, hashTable, s)
          | None \<Rightarrow>
              Some (True,
                    hashTable[index := (hashTable ! index)
                      \<lparr>elements := elements (hashTable ! index) @ [(key, val)]\<rparr>],
                    on_success s))"

text \<open>
  \<^verbatim>\<open>upsert\<close> searches under \<^verbatim>\<open>lock_shared()\<close>, calls \<^verbatim>\<open>unlock()\<close> and
  then \<^verbatim>\<open>lock()\<close>.
\<close>

definition upsert_p3 ::
  "('k \<Rightarrow> nat) \<Rightarrow> 'k \<Rightarrow> 'v \<Rightarrow> ('s \<Rightarrow> 's) \<Rightarrow> ('s \<Rightarrow> 's) \<Rightarrow> ('k, 'v) table \<Rightarrow> 's
     \<Rightarrow> (bool \<times> ('k, 'v) table \<times> 's) option" where
  "upsert_p3 key_hash key val on_ins on_upt hashTable s =
     (if length hashTable = 0 then None
      else
        let index = key_hash key mod length hashTable in
        if mtx (hashTable ! index) \<noteq> 0 then None
        else
          case find_key key (elements (hashTable ! index)) of
            Some i \<Rightarrow>
              Some (False,
                    hashTable[index := (hashTable ! index)
                      \<lparr>elements := (elements (hashTable ! index))
                         [i := (fst (elements (hashTable ! index) ! i), val)]\<rparr>],
                    on_upt s)
          | None \<Rightarrow>
              Some (True,
                    hashTable[index := (hashTable ! index)
                      \<lparr>elements := elements (hashTable ! index) @ [(key, val)]\<rparr>],
                    on_ins s))"

text \<open>
  \<^verbatim>\<open>do_with\<close> searches under \<^verbatim>\<open>lock_shared()\<close> and calls \<^verbatim>\<open>unlock()\<close>;
  it returns false for a missing key, and otherwise calls \<^verbatim>\<open>lock()\<close> and hands the
  stored value to \<open>f\<close> by reference: \<open>f\<close> returns the value as it leaves it, with its
  closure's state.
\<close>

definition do_with_p3 ::
  "('k \<Rightarrow> nat) \<Rightarrow> 'k \<Rightarrow> ('v \<Rightarrow> 's \<Rightarrow> 'v \<times> 's) \<Rightarrow> ('k, 'v) table \<Rightarrow> 's
     \<Rightarrow> (bool \<times> ('k, 'v) table \<times> 's) option" where
  "do_with_p3 key_hash key f hashTable s =
     (if length hashTable = 0 then None
      else
        let index = key_hash key mod length hashTable in
        case find_key key (elements (hashTable ! index)) of
          None \<Rightarrow> Some (False, hashTable, s)
        | Some i \<Rightarrow>
            if mtx (hashTable ! index) \<noteq> 0 then None
            else
              (case f (snd (elements (hashTable ! index) ! i)) s of
                 (v, s1) \<Rightarrow>
                   Some (True,
                         hashTable[index := (hashTable ! index)
                           \<lparr>elements := (elements (hashTable ! index))
                              [i := (fst (elements (hashTable ! index) ! i), v)]\<rparr>],
                         s1)))"

text \<open>
  \<^verbatim>\<open>do_with_readonly\<close> takes the lock in shared mode only and releases it on
  both paths.
\<close>

definition do_with_readonly_p3 ::
  "('k \<Rightarrow> nat) \<Rightarrow> 'k \<Rightarrow> ('v \<Rightarrow> 's \<Rightarrow> 's) \<Rightarrow> ('k, 'v) table \<Rightarrow> 's \<Rightarrow> (bool \<times> 's) option" where
  "do_with_readonly_p3 key_hash key f hashTable s =
     (if length hashTable = 0 then None
      else
        let index = key_hash key mod length hashTable in
        case find_key key (elements (hashTable ! index)) of
          Some i \<Rightarrow> Some (True, f (snd (elements (hashTable ! index) ! i)) s)
        | None \<Rightarrow> Some (False, s))"

text \<open>
  \<^verbatim>\<open>remove\<close> searches under \<^verbatim>\<open>lock_shared()\<close>.  When it finds the key it calls
  \<^verbatim>\<open>unlock()\<close>, \<^verbatim>\<open>lock()\<close>, erases the pair, runs the callback and unlocks.
  When the loop ends without a match it returns false with no \<^verbatim>\<open>unlock()\<close>: the
  shared hold stays on the bucket.
\<close>

definition remove_p3 ::
  "('k \<Rightarrow> nat) \<Rightarrow> 'k \<Rightarrow> ('s \<Rightarrow> 's) \<Rightarrow> ('k, 'v) table \<Rightarrow> 's
     \<Rightarrow> (bool \<times> ('k, 'v) table \<times> 's) option" where
  "remove_p3 key_hash key on_success hashTable s =
     (if length hashTable = 0 then None
      else
        let index = key_hash key mod length hashTable in
        case find_key key (elements (hashTable ! index)) of
          Some i \<Rightarrow>
            if mtx (hashTable ! index) \<noteq> 0 then None
            else
              Some (True,
                    hashTable[index := (hashTable ! index)
                      \<lparr>elements := take i (elements (hashTable ! index))
                                     @ drop (Suc i) (elements (hashTable ! index))\<rparr>],
                    on_success s)
        | None \<Rightarrow>
            Some (False,
                  hashTable[index := (hashTable ! index)\<lparr>mtx := Suc (mtx (hashTable ! index))\<rparr>],
                  s))"

text \<open>
  The steps of a whole-table scan that a claim can be about: taking and releasing the
  lock of bucket \<open>i\<close>, a call of \<open>f\<close> on a pair, and the call of \<^verbatim>\<open>then\<close>.
\<close>

datatype ('k, 'v) action = Acquire nat | Release nat | Apply_f 'k 'v | Run_then

text \<open>The inner loop of \<^verbatim>\<open>do_all_readonly\<close>: \<open>f\<close> on every pair of one bucket, in order.\<close>

fun scan_bucket ::
  "('k \<Rightarrow> 'v \<Rightarrow> 's \<Rightarrow> 's) \<Rightarrow> ('k \<times> 'v) list \<Rightarrow> 's \<times> ('k, 'v) action list
     \<Rightarrow> 's \<times> ('k, 'v) action list" where
  "scan_bucket f [] st = st"
| "scan_bucket f (e # es) (s, tr) =
     scan_bucket f es (f (fst e) (snd e) s, tr @ [Apply_f (fst e) (snd e)])"

text \<open>
  The second loop of the p3 \<^verbatim>\<open>do_all_readonly\<close>: for each bucket \<open>i\<close>, \<open>f\<close> on
  its pairs and then \<^verbatim>\<open>hashTable[i]->mtx.unlock()\<close>.
\<close>

fun scan_and_unlock ::
  "('k \<Rightarrow> 'v \<Rightarrow> 's \<Rightarrow> 's) \<Rightarrow> nat \<Rightarrow> ('k, 'v) table \<Rightarrow> 's \<times> ('k, 'v) action list
     \<Rightarrow> 's \<times> ('k, 'v) action list" where
  "scan_and_unlock f i [] st = st"
| "scan_and_unlock f i (b # bs) st =
     (case scan_bucket f (elements b) st of
        (s1, tr1) \<Rightarrow> scan_and_unlock f (Suc i) bs (s1, tr1 @ [Release i]))"

text \<open>
  p3: \<^verbatim>\<open>lock_shared()\<close> on every bucket, call \<^verbatim>\<open>then()\<close>, and only then run the
  scanning loop.  Each shared hold taken is released in the loop, so the table, locks
  included, is left as it was and is not returned.
\<close>

definition do_all_readonly_p3 ::
  "('k \<Rightarrow> 'v \<Rightarrow> 's \<Rightarrow> 's) \<Rightarrow> ('s \<Rightarrow> 's) \<Rightarrow> ('k, 'v) table \<Rightarrow> 's
     \<Rightarrow> 's \<times> ('k, 'v) action list" where
  "do_all_readonly_p3 f thn hashTable s =
     (let size = length hashTable;
          tr1 = map Acquire [0..<size];
          s1 = thn s;
          tr2 = tr1 @ [Run_then]
      in scan_and_unlock f 0 hashTable (s1, tr2))"

text \<open>
  \<^verbatim>\<open>ConcurrentHashTable<K, V>\<close> of p5: each bucket has a \<^verbatim>\<open>std::mutex\<close>, taken
  through a \<^verbatim>\<open>lock_guard\<close> that releases it on every return, so a bucket is its
  vector of pairs.
\<close>

type_synonym ('k, 'v) table_p5 = "('k \<times> 'v) list list"

definition ConcurrentHashTable_p5 :: "nat \<Rightarrow> ('k, 'v) table_p5" where
  "ConcurrentHashTable_p5 buckets = replicate buckets []"

text \<open>The range-for loop of the p5 table: is some pair of the bucket stored under \<open>key\<close>?\<close>

fun contains_key :: "'k \<Rightarrow> ('k \<times> 'v) list \<Rightarrow> bool" where
  "contains_key key [] = False"
| "contains_key key (e # es) = (if fst e = key then True else contains_key key es)"

definition insert_p5 ::
  "('k \<Rightarrow> nat) \<Rightarrow> 'k \<Rightarrow> 'v \<Rightarrow> ('s \<Rightarrow> 's) \<Rightarrow> ('k, 'v) table_p5 \<Rightarrow> 's
     \<Rightarrow> (bool \<times> ('k, 'v) table_p5 \<times> 's) option" where
  "insert_p5 key_hash key val on_success buckets s =
     (if length buckets = 0 then None
      else
        let b = key_hash key mod length buckets in
        if contains_key key (buckets ! b) then Some (False, buckets, s)
        else Some (True, buckets[b := buckets ! b @ [(key, val)]], on_success s))"

fun scan_all ::
  "('k \<Rightarrow> 'v \<Rightarrow> 's \<Rightarrow> 's) \<Rightarrow> ('k, 'v) table_p5 \<Rightarrow> 's \<times> ('k, 'v) action list
     \<Rightarrow> 's \<times> ('k, 'v) action list" where
  "scan_all f [] st = st"
| "scan_all f (b # bs) st = scan_all f bs (scan_bucket f b st)"

text \<open>
  p5: lock every bucket, run \<open>f\<close> over every bucket, call \<^verbatim>\<open>then()\<close>, unlock
  every bucket.
\<close>

definition do_all_readonly_p5 ::
  "('k \<Rightarrow> 'v \<Rightarrow> 's \<Rightarrow> 's) \<Rightarrow> ('s \<Rightarrow> 's) \<Rightarrow> ('k, 'v) table_p5 \<Rightarrow> 's
     \<Rightarrow> 's \<times> ('k, 'v) action list" where
  "do_all_readonly_p5 f thn buckets s =
     (let tr1 = map Acquire [0..<length buckets] in
      case scan_all f buckets (s, tr1) of
        (s1, tr2) \<Rightarrow> (thn s1, tr2 @ [Run_then] @ map Release [0..<length buckets]))"

text \<open>
  The keys that buckets hold, and the invariant of a table built by its own operations:
  every pair sits in the bucket its key hashes to.  For a p3 table the buckets' pairs
  are \<open>map elements t\<close>.
\<close>

definition table_keys :: "('k \<times> 'v) list list \<Rightarrow> 'k set" where
  "table_keys t = fst ` set (concat t)"

definition placed :: "('k \<Rightarrow> nat) \<Rightarrow> ('k \<times> 'v) list list \<Rightarrow> bool" where
  "placed key_hash t =
     list_all (\<lambda>(i, b). list_all (\<lambda>e. key_hash (fst e) mod length t = i) b) (enumerate 0 t)"

section \<open>Protocol constants and byte helpers\<close>

text \<open>
  Modelled from the spec: \<^verbatim>\<open>common/protocol.h\<close> is not among the sources.  The
  response constants are the literal strings of the specification's error taxonomy, and
  the length bounds are those of the data model (user names of at most 64 bytes) and of
  the comment on \<^verbatim>\<open>pass_hash\<close> (passwords of at most 128 characters).
\<close>

definition RES_OK :: string where "RES_OK = ''OK''"

definition RES_OKINS :: string where "RES_OKINS = ''OKINS''"

definition RES_OKUPD :: string where "RES_OKUPD = ''OKUPD''"

definition RES_ERR_USER_EXISTS :: string where "RES_ERR_USER_EXISTS = ''ERR_USER_EXISTS''"

definition RES_ERR_NO_USER :: string where "RES_ERR_NO_USER = ''ERR_NO_USER''"

definition RES_ERR_LOGIN :: string where "RES_ERR_LOGIN = ''ERR_LOGIN''"

definition RES_ERR_NO_DATA :: string where "RES_ERR_NO_DATA = ''ERR_NO_DATA''"

definition RES_ERR_KEY :: string where "RES_ERR_KEY = ''ERR_KEY''"

definition RES_ERR_MSG_FMT :: string where "RES_ERR_MSG_FMT = ''ERR_MSG_FMT''"

definition LEN_UNAME :: nat where "LEN_UNAME = 64"

definition LEN_PASS :: nat where "LEN_PASS = 128"

text \<open>
  Modelled from the spec: \<^verbatim>\<open>common/vec.h\<close> is not among the sources.
  \<^verbatim>\<open>vec_append(v, (int) n)\<close> appends the four bytes of \<open>n\<close>, least significant
  first (all integers of the file format are 32-bit little-endian); \<open>byte n\<close> is the
  low eight bits of \<open>n\<close>.  \<^verbatim>\<open>vec_append\<close> of a string or a vec is \<open>@\<close>.
\<close>

definition byte :: "nat \<Rightarrow> char" where
  "byte n = Char (odd n) (odd (n div 2)) (odd (n div 4)) (odd (n div 8))
                 (odd (n div 16)) (odd (n div 32)) (odd (n div 64)) (odd (n div 128))"

definition le32 :: "nat \<Rightarrow> vec" where
  "le32 n = [byte n, byte (n div 256), byte (n div 65536), byte (n div 16777216)]"

text \<open>
  Modelled from the spec: \<^verbatim>\<open>common/file.h\<close> is not among the sources.  The disk
  maps a file name to its content; \<^verbatim>\<open>write_file\<close> creates or replaces the named
  file with the given bytes, and \<^verbatim>\<open>rename\<close> (of the C library) moves a file over
  the target name.
\<close>

definition write_file :: "(string \<rightharpoonup> vec) \<Rightarrow> string \<Rightarrow> vec \<Rightarrow> (string \<rightharpoonup> vec)" where
  "write_file disk name bytes = disk(name \<mapsto> bytes)"

definition rename_file :: "(string \<rightharpoonup> vec) \<Rightarrow> string \<Rightarrow> string \<Rightarrow> (string \<rightharpoonup> vec)" where
  "rename_file disk old new =
     (case disk old of None \<Rightarrow> disk | Some bytes \<Rightarrow> (disk(new \<mapsto> bytes))(old := None))"

text \<open>
  A stand-in digest for the concrete evaluations below (the first 16 bytes of its
  input padded with dots).  Every general statement is about an arbitrary digest
  function \<open>MD5\<close>.
\<close>

definition sample_digest :: "vec \<Rightarrow> vec" where
  "sample_digest bytes = take 16 (bytes @ ''................'')"

section \<open>The storage facade with a key/value store (p3/server/server\_storage.cc)\<close>

record AuthTableEntry =
  username :: string
  pass_hash :: string
  content :: vec

definition AUTHENTRY :: string where "AUTHENTRY = ''AUTHAUTH''"

definition KVENTRY :: string where "KVENTRY = ''KVKVKVKV''"

definition AUTHDIFF :: string where "AUTHDIFF = ''AUTHDIFF''"

definition KVUPDATE :: string where "KVUPDATE = ''KVUPDATE''"

definition KVDELETE :: string where "KVDELETE = ''KVDELETE''"

text \<open>
  The \<^verbatim>\<open>FILE*\<close> field \<^verbatim>\<open>f_ptr\<close>.  The constructor does not initialise it;
  \<^verbatim>\<open>load\<close> opens the data file for reading, for writing or for appending;
  \<^verbatim>\<open>persist\<close> closes it.  A writable handle carries the bytes pushed through it
  since it was opened, in order.
\<close>

datatype file_handle = Uninitialised | Read_only | Writable vec | Closed

text \<open>
  \<^verbatim>\<open>fwrite\<close> followed by \<^verbatim>\<open>fflush\<close>.  On a stream opened for reading the write
  fails and the code does not look at the result.  Through a pointer that was never
  set, or a stream already closed, the call has no defined result (\<open>None\<close>).
\<close>

definition fwrite :: "vec \<Rightarrow> file_handle \<Rightarrow> file_handle option" where
  "fwrite data h =
     (case h of
        Writable written \<Rightarrow> Some (Writable (written @ data))
      | Read_only \<Rightarrow> Some Read_only
      | Uninitialised \<Rightarrow> None
      | Closed \<Rightarrow> None)"

definition is_open :: "file_handle \<Rightarrow> bool" where
  "is_open h =
     (case h of
        Writable written \<Rightarrow> True
      | Read_only \<Rightarrow> True
      | Uninitialised \<Rightarrow> False
      | Closed \<Rightarrow> False)"

text \<open>
  The state a logging callback acts on: the handle, or \<open>None\<close> once a write through
  it has had no defined result.
\<close>

definition log_append :: "vec \<Rightarrow> file_handle option \<Rightarrow> file_handle option" where
  "log_append data file = Option.bind file (fwrite data)"

text \<open>\<^verbatim>\<open>Storage::Internal\<close>.\<close>

record Storage_p3 =
  auth_table :: "(string, AuthTableEntry) table"
  kv_store :: "(string, vec) table"
  filename :: string
  f_ptr :: file_handle

definition Storage_p3_new :: "string \<Rightarrow> nat \<Rightarrow> Storage_p3" where
  "Storage_p3_new fname num_buckets =
     \<lparr>auth_table = ConcurrentHashTable num_buckets,
      kv_store = ConcurrentHashTable num_buckets,
      filename = fname, f_ptr = Uninitialised\<rparr>"

subsection \<open>Loading\<close>

text \<open>
  A 32-bit length of the file format, read through an \<^verbatim>\<open>int32_t*\<close> at offset \<open>i\<close>
  of the loaded bytes: little-endian, two's complement.  A read that reaches past the
  loaded bytes has no defined result.
\<close>

definition int32_at :: "vec \<Rightarrow> nat \<Rightarrow> int option" where
  "int32_at data i =
     (if length data < i + 4 then None
      else
        let n = of_char (data ! i) + 256 * of_char (data ! (i + 1))
                + 65536 * of_char (data ! (i + 2)) + 16777216 * of_char (data ! (i + 3)) :: nat
        in Some (if n < 2147483648 then int n else int n - 4294967296))"

text \<open>
  A length-prefixed field at offset \<open>i\<close>: the length, then \<^verbatim>\<open>string(data + i, len)\<close>,
  and the offset behind the field.  A negative length turns into a huge
  \<^verbatim>\<open>size_t\<close> and the string constructor throws; a length that reaches past the
  loaded bytes is a read out of range.  Both are \<open>None\<close>.
\<close>

definition read_field :: "vec \<Rightarrow> nat \<Rightarrow> (string \<times> nat) option" where
  "read_field data i =
     (case int32_at data i of
        None \<Rightarrow> None
      | Some len \<Rightarrow>
          if len < 0 then None
          else if length data < i + 4 + nat len then None
          else Some (take (nat len) (drop (i + 4) data), i + 4 + nat len))"

datatype log_record =
  Auth_entry string string vec
| Kv_entry string vec
| Kv_update string vec
| Kv_delete string
| Auth_diff string vec

datatype parsed = Undefined_read | Unknown_magic | Parsed log_record nat

text \<open>
  One round of the loop of \<^verbatim>\<open>load\<close> up to the table operation: the 8-byte magic
  at offset \<open>i\<close> selects the record, whose fields follow.
\<close>

definition parse_record :: "vec \<Rightarrow> nat \<Rightarrow> parsed" where
  "parse_record data i =
     (if length data < i + 8 then Undefined_read
      else
        let magic = take 8 (drop i data) in
        if magic = AUTHENTRY then
          (case read_field data (i + 8) of
             None \<Rightarrow> Undefined_read
           | Some (user, i1) \<Rightarrow>
               (case read_field data i1 of
                  None \<Rightarrow> Undefined_read
                | Some (pass, i2) \<Rightarrow>
                    (case read_field data i2 of
                       None \<Rightarrow> Undefined_read
                     | Some (cont, i3) \<Rightarrow> Parsed (Auth_entry user pass cont) i3)))
        else if magic = KVENTRY then
          (case read_field data (i + 8) of
             None \<Rightarrow> Undefined_read
           | Some (key, i1) \<Rightarrow>
               (case read_field data i1 of
                  None \<Rightarrow> Undefined_read
                | Some (val, i2) \<Rightarrow> Parsed (Kv_entry key val) i2))
        else if magic = KVUPDATE then
          (case read_field data (i + 8) of
             None \<Rightarrow> Undefined_read
           | Some (key, i1) \<Rightarrow>
               (case read_field data i1 of
                  None \<Rightarrow> Undefined_read
                | Some (val, i2) \<Rightarrow> Parsed (Kv_update key val) i2))
        else if magic = KVDELETE then
          (case read_field data (i + 8) of
             None \<Rightarrow> Undefined_read
           | Some (key, i1) \<Rightarrow> Parsed (Kv_delete key) i1)
        else if magic = AUTHDIFF then
          (case read_field data (i + 8) of
             None \<Rightarrow> Undefined_read
           | Some (user, i1) \<Rightarrow>
               (case read_field data i1 of
                  None \<Rightarrow> Undefined_read
                | Some (cont, i2) \<Rightarrow> Parsed (Auth_diff user cont) i2))
        else Unknown_magic)"

text \<open>
  The table operation of the round, with empty callbacks: \<^verbatim>\<open>insert\<close> for an
  entry, \<^verbatim>\<open>upsert\<close> for an update, \<^verbatim>\<open>remove\<close> for a delete and \<^verbatim>\<open>do_with\<close>
  for a content change.
\<close>

definition apply_record ::
  "(string \<Rightarrow> nat) \<Rightarrow> log_record
     \<Rightarrow> (string, AuthTableEntry) table \<times> (string, vec) table
     \<Rightarrow> ((string, AuthTableEntry) table \<times> (string, vec) table) option" where
  "apply_record key_hash r tabs =
     (case r of
        Auth_entry user pass cont \<Rightarrow>
          map_option (\<lambda>(res, t, u). (t, snd tabs))
            (insert_p3 key_hash user \<lparr>username = user, pass_hash = pass, content = cont\<rparr>
               (\<lambda>u. u) (fst tabs) ())
      | Kv_entry key val \<Rightarrow>
          map_option (\<lambda>(res, t, u). (fst tabs, t))
            (insert_p3 key_hash key val (\<lambda>u. u) (snd tabs) ())
      | Kv_update key val \<Rightarrow>
          map_option (\<lambda>(res, t, u). (fst tabs, t))
            (upsert_p3 key_hash key val (\<lambda>u. u) (\<lambda>u. u) (snd tabs) ())
      | Kv_delete key \<Rightarrow>
          map_option (\<lambda>(res, t, u). (fst tabs, t))
            (remove_p3 key_hash key (\<lambda>u. u) (snd tabs) ())
      | Auth_diff user cont \<Rightarrow>
          map_option (\<lambda>(res, t, u). (t, snd tabs))
            (do_with_p3 key_hash user (\<lambda>entry u. (entry\<lparr>content := cont\<rparr>, u)) (fst tabs) ()))"

text \<open>
  The loop \<^verbatim>\<open>while(i < data.size())\<close>: it ends with true at the end of the bytes and
  with false at a magic it does not know.
\<close>

function load_loop ::
  "(string \<Rightarrow> nat) \<Rightarrow> vec \<Rightarrow> nat
     \<Rightarrow> (string, AuthTableEntry) table \<times> (string, vec) table
     \<Rightarrow> (bool \<times> (string, AuthTableEntry) table \<times> (string, vec) table) option" where
  "load_loop key_hash data i tabs =
     (if \<not> i < length data then Some (True, tabs)
      else
        case parse_record data i of
          Undefined_read \<Rightarrow> None
        | Unknown_magic \<Rightarrow> Some (False, tabs)
        | Parsed r i1 \<Rightarrow>
            (case apply_record key_hash r tabs of
               None \<Rightarrow> None
             | Some tabs1 \<Rightarrow> load_loop key_hash data i1 tabs1))"
  by pat_completeness auto
termination
  by (relation "measure (\<lambda>(key_hash, data, i, tabs). length data - i)")
     (auto simp: parse_record_def read_field_def Let_def split: if_splits option.splits prod.splits)

text \<open>
  \<^verbatim>\<open>load\<close>, on a disk that maps a file name to its content
  (\<^verbatim>\<open>load_entire_file\<close> of \<^verbatim>\<open>common/file.h\<close> reads that content; every
  \<^verbatim>\<open>fopen\<close> that can succeed is taken to succeed).  Without the file it creates it
  empty, keeps the handle opened for writing and returns true.  With the file it clears
  both tables; on an empty file it returns true and on an unknown magic false, both
  with the handle opened for reading; after a full replay it closes the handle and
  opens the file for appending.
\<close>

definition load_p3 ::
  "(string \<Rightarrow> nat) \<Rightarrow> Storage_p3 \<Rightarrow> (string \<rightharpoonup> vec)
     \<Rightarrow> (bool \<times> Storage_p3 \<times> (string \<rightharpoonup> vec)) option" where
  "load_p3 key_hash st disk =
     (case disk (filename st) of
        None \<Rightarrow> Some (True, st\<lparr>f_ptr := Writable []\<rparr>, disk(filename st \<mapsto> []))
      | Some data \<Rightarrow>
          (case clear_p3 (auth_table st) of
             None \<Rightarrow> None
           | Some auth1 \<Rightarrow>
               (case clear_p3 (kv_store st) of
                  None \<Rightarrow> None
                | Some kv1 \<Rightarrow>
                    if length data = 0
                    then Some (True, st\<lparr>auth_table := auth1, kv_store := kv1, f_ptr := Read_only\<rparr>, disk)
                    else
                      (case load_loop key_hash data 0 (auth1, kv1) of
                         None \<Rightarrow> None
                       | Some (ok, auth2, kv2) \<Rightarrow>
                           Some (ok,
                                 st\<lparr>auth_table := auth2, kv_store := kv2,
                                    f_ptr := (if ok then Writable [] else Read_only)\<rparr>,
                                 disk)))))"

subsection \<open>Users and authentication\<close>

text \<open>
  Both \<^verbatim>\<open>add_user\<close> and \<^verbatim>\<open>auth\<close> call OpenSSL's \<^verbatim>\<open>MD5\<close> on
  \<^verbatim>\<open>pass.length()\<close> bytes starting at \<^verbatim>\<open>&pass\<close>, the address of the
  \<^verbatim>\<open>std::string\<close> object, and read the 16-byte digest buffer on their stack back as
  a C string, which runs on behind the buffer to the first NUL byte.  What a call finds
  in memory is a parameter of that call: \<open>pass_object\<close>, the bytes from \<^verbatim>\<open>&pass\<close>
  on, and \<open>after_digest\<close>, the bytes behind the digest buffer up to and including the
  first NUL.  The password itself enters only through its length.  \<open>MD5\<close> is the
  digest function on bytes.
\<close>

record call_memory =
  pass_object :: vec
  after_digest :: vec

definition md5_digest :: "(vec \<Rightarrow> vec) \<Rightarrow> call_memory \<Rightarrow> string \<Rightarrow> vec" where
  "md5_digest MD5 mem pass = take 16 (MD5 (take (length pass) (pass_object mem)))"

definition hashed_pass :: "(vec \<Rightarrow> vec) \<Rightarrow> call_memory \<Rightarrow> string \<Rightarrow> string" where
  "hashed_pass MD5 mem pass =
     takeWhile (\<lambda>c. c \<noteq> CHR 0x00) (md5_digest MD5 mem pass @ after_digest mem)"

definition add_user_p3 ::
  "(vec \<Rightarrow> vec) \<Rightarrow> (string \<Rightarrow> nat) \<Rightarrow> call_memory \<Rightarrow> Storage_p3 \<Rightarrow> string \<Rightarrow> string
     \<Rightarrow> (bool \<times> Storage_p3) option" where
  "add_user_p3 MD5 key_hash mem st user_name pass =
     (let new_user = \<lparr>username = user_name, pass_hash = hashed_pass MD5 mem pass, content = []\<rparr>
      in case insert_p3 key_hash user_name new_user
                (log_append (AUTHENTRY @ le32 (length (username new_user)) @ username new_user
                             @ le32 16 @ md5_digest MD5 mem pass
                             @ le32 (length (content new_user))))
                (auth_table st) (Some (f_ptr st)) of
           None \<Rightarrow> None
         | Some (result, t, None) \<Rightarrow> None
         | Some (result, t, Some file) \<Rightarrow> Some (result, st\<lparr>auth_table := t, f_ptr := file\<rparr>))"

text \<open>
  \<^verbatim>\<open>auth\<close>: \<^verbatim>\<open>check_func\<close> sets \<^verbatim>\<open>authenticated\<close> when
  \<^verbatim>\<open>entry.pass_hash.compare(check.pass_hash)\<close> is non-zero, that is, when the two
  strings differ.  It leaves the entry as it is, so the table is not returned.
\<close>

definition auth_p3 ::
  "(vec \<Rightarrow> vec) \<Rightarrow> (string \<Rightarrow> nat) \<Rightarrow> call_memory \<Rightarrow> Storage_p3 \<Rightarrow> string \<Rightarrow> string
     \<Rightarrow> bool option" where
  "auth_p3 MD5 key_hash mem st user_name pass =
     (case do_with_p3 key_hash user_name
             (\<lambda>entry authenticated.
                (entry, if pass_hash entry \<noteq> hashed_pass MD5 mem pass then True
                        else authenticated))
             (auth_table st) False of
        None \<Rightarrow> None
      | Some (found, t, authenticated) \<Rightarrow> Some authenticated)"

subsection \<open>The key/value operations\<close>

definition kv_insert_p3 ::
  "(vec \<Rightarrow> vec) \<Rightarrow> (string \<Rightarrow> nat) \<Rightarrow> call_memory \<Rightarrow> Storage_p3 \<Rightarrow> string \<Rightarrow> string
     \<Rightarrow> string \<Rightarrow> vec \<Rightarrow> (vec \<times> Storage_p3) option" where
  "kv_insert_p3 MD5 key_hash mem st user_name pass key val =
     (case auth_p3 MD5 key_hash mem st user_name pass of
        None \<Rightarrow> None
      | Some False \<Rightarrow> Some (RES_ERR_LOGIN, st)
      | Some True \<Rightarrow>
          (case insert_p3 key_hash key val
                  (log_append (KVENTRY @ le32 (length key) @ key @ le32 (length val) @ val))
                  (kv_store st) (Some (f_ptr st)) of
             None \<Rightarrow> None
           | Some (inserted, t, None) \<Rightarrow> None
           | Some (inserted, t, Some file) \<Rightarrow>
               Some (if \<not> inserted then RES_ERR_KEY else RES_OK,
                     st\<lparr>kv_store := t, f_ptr := file\<rparr>)))"

text \<open>\<^verbatim>\<open>kv_get\<close> returns the pair of the error flag and the data.\<close>

definition kv_get_p3 ::
  "(vec \<Rightarrow> vec) \<Rightarrow> (string \<Rightarrow> nat) \<Rightarrow> call_memory \<Rightarrow> Storage_p3 \<Rightarrow> string \<Rightarrow> string
     \<Rightarrow> string \<Rightarrow> (bool \<times> vec) option" where
  "kv_get_p3 MD5 key_hash mem st user_name pass key =
     (case auth_p3 MD5 key_hash mem st user_name pass of
        None \<Rightarrow> None
      | Some False \<Rightarrow> Some (True, RES_ERR_LOGIN)
      | Some True \<Rightarrow>
          (case do_with_readonly_p3 key_hash key (\<lambda>value data. data @ value) (kv_store st) [] of
             None \<Rightarrow> None
           | Some (found, data) \<Rightarrow>
               Some (if \<not> found then (True, RES_ERR_KEY) else (False, data))))"

definition kv_delete_p3 ::
  "(vec \<Rightarrow> vec) \<Rightarrow> (string \<Rightarrow> nat) \<Rightarrow> call_memory \<Rightarrow> Storage_p3 \<Rightarrow> string \<Rightarrow> string
     \<Rightarrow> string \<Rightarrow> (vec \<times> Storage_p3) option" where
  "kv_delete_p3 MD5 key_hash mem st user_name pass key =
     (case auth_p3 MD5 key_hash mem st user_name pass of
        None \<Rightarrow> None
      | Some False \<Rightarrow> Some (RES_ERR_LOGIN, st)
      | Some True \<Rightarrow>
          (case remove_p3 key_hash key
                  (log_append (KVDELETE @ le32 (length key) @ key))
                  (kv_store st) (Some (f_ptr st)) of
             None \<Rightarrow> None
           | Some (removed, t, None) \<Rightarrow> None
           | Some (removed, t, Some file) \<Rightarrow>
               Some (if \<not> removed then RES_ERR_KEY else RES_OK,
                     st\<lparr>kv_store := t, f_ptr := file\<rparr>)))"

definition kv_upsert_p3 ::
  "(vec \<Rightarrow> vec) \<Rightarrow> (string \<Rightarrow> nat) \<Rightarrow> call_memory \<Rightarrow> Storage_p3 \<Rightarrow> string \<Rightarrow> string
     \<Rightarrow> string \<Rightarrow> vec \<Rightarrow> (vec \<times> Storage_p3) option" where
  "kv_upsert_p3 MD5 key_hash mem st user_name pass key val =
     (case auth_p3 MD5 key_hash mem st user_name pass of
        None \<Rightarrow> None
      | Some False \<Rightarrow> Some (RES_ERR_LOGIN, st)
      | Some True \<Rightarrow>
          (case upsert_p3 key_hash key val
                  (log_append (KVENTRY @ le32 (length key) @ key @ le32 (length val) @ val))
                  (log_append (KVUPDATE @ le32 (length key) @ key @ le32 (length val) @ val))
                  (kv_store st) (Some (f_ptr st)) of
             None \<Rightarrow> None
           | Some (inserted, t, None) \<Rightarrow> None
           | Some (inserted, t, Some file) \<Rightarrow>
               Some (if inserted then RES_OKINS else RES_OKUPD,
                     st\<lparr>kv_store := t, f_ptr := file\<rparr>)))"

subsection \<open>The snapshot\<close>

text \<open>The records that \<^verbatim>\<open>persist\<close> appends to \<^verbatim>\<open>data\<close> for one user and one pair.\<close>

definition auth_record :: "AuthTableEntry \<Rightarrow> vec" where
  "auth_record entry =
     AUTHENTRY @ le32 (length (username entry)) @ username entry
     @ le32 (length (pass_hash entry)) @ pass_hash entry
     @ le32 (length (content entry))
     @ (if length (content entry) > 0 then content entry else [])"

definition kv_record :: "string \<Rightarrow> vec \<Rightarrow> vec" where
  "kv_record key2 value2 =
     KVENTRY @ le32 (length key2) @ key2 @ le32 (length value2) @ value2"

text \<open>
  \<^verbatim>\<open>persist\<close> of p3 closes \<^verbatim>\<open>f_ptr\<close> (an \<^verbatim>\<open>fclose\<close> of a pointer that was
  never set, or of a stream already closed, has no defined result) and does not open
  it again.  It scans the auth table with the p3 \<^verbatim>\<open>do_all_readonly\<close>; its
  \<^verbatim>\<open>then\<close> callback scans the key/value store, appending a record per pair and
  rewriting the temporary file each time.  After the scan it writes \<^verbatim>\<open>data\<close> to
  \<^verbatim>\<open>filename + ".tmp"\<close> and renames it to \<^verbatim>\<open>filename\<close>.  The closures share
  \<^verbatim>\<open>data\<close> and the disk.
\<close>

definition persist_p3 ::
  "Storage_p3 \<Rightarrow> (string \<rightharpoonup> vec) \<Rightarrow> (Storage_p3 \<times> (string \<rightharpoonup> vec)) option" where
  "persist_p3 st disk =
     (if f_ptr st = Uninitialised \<or> f_ptr st = Closed then None
      else
        case fst (do_all_readonly_p3
                    (\<lambda>user_name entry (data, d). (data @ auth_record entry, d))
                    (\<lambda>(data, d).
                       fst (do_all_readonly_p3
                              (\<lambda>key2 value2 (data, d).
                                 (data @ kv_record key2 value2,
                                  write_file d (filename st @ ''.tmp'')
                                    (data @ kv_record key2 value2)))
                              (\<lambda>x. x) (kv_store st) (data, d)))
                    (auth_table st) ([], disk)) of
          (data, d) \<Rightarrow>
            Some (st\<lparr>f_ptr := Closed\<rparr>,
                  rename_file (write_file d (filename st @ ''.tmp'') data)
                    (filename st @ ''.tmp'') (filename st)))"

section \<open>The first storage facade (p1/server/server\_storage.cc)\<close>

text \<open>
  \<^verbatim>\<open>auth_table\<close> is a \<^verbatim>\<open>std::unordered_map\<close>: an association list with
  distinct keys, in the order in which the map iterates.
\<close>

record Storage_p1 =
  auth_table_p1 :: "(string \<times> AuthTableEntry) list"
  filename_p1 :: string

definition Storage_p1_new :: "string \<Rightarrow> Storage_p1" where
  "Storage_p1_new fname = \<lparr>auth_table_p1 = [], filename_p1 = fname\<rparr>"

text \<open>
  \<^verbatim>\<open>mdString\<close>: the 16 digest bytes printed with \<^verbatim>\<open>sprintf("%02x")\<close>, 32
  lower-case hexadecimal digits.
\<close>

definition hex_digit :: "nat \<Rightarrow> char" where
  "hex_digit n = ''0123456789abcdef'' ! (n mod 16)"

definition hex2 :: "char \<Rightarrow> string" where
  "hex2 c = [hex_digit (of_char c div 16), hex_digit (of_char c mod 16)]"

definition mdString :: "(string \<Rightarrow> vec) \<Rightarrow> string \<Rightarrow> string" where
  "mdString MD5 pass = concat (map hex2 (take 16 (MD5 pass)))"

definition exists_p1 :: "Storage_p1 \<Rightarrow> string \<Rightarrow> bool" where
  "exists_p1 st user_name = (map_of (auth_table_p1 st) user_name \<noteq> None)"

text \<open>
  \<^verbatim>\<open>auth\<close> of p1 reads \<^verbatim>\<open>auth_table.at(user_name)\<close>, which throws for an
  unknown user (\<open>None\<close>).
\<close>

definition auth_p1 :: "(string \<Rightarrow> vec) \<Rightarrow> Storage_p1 \<Rightarrow> string \<Rightarrow> string \<Rightarrow> bool option" where
  "auth_p1 MD5 st user_name pass =
     (case map_of (auth_table_p1 st) user_name of
        None \<Rightarrow> None
      | Some entry \<Rightarrow> Some (take 32 (mdString MD5 pass) = pass_hash entry))"

text \<open>
  \<^verbatim>\<open>add_user\<close> of p1.  Where the new element lands in the iteration order of the
  map is the library's choice: the position \<open>pos\<close> is a parameter.
\<close>

definition add_user_p1 ::
  "(string \<Rightarrow> vec) \<Rightarrow> nat \<Rightarrow> Storage_p1 \<Rightarrow> string \<Rightarrow> string \<Rightarrow> bool \<times> Storage_p1" where
  "add_user_p1 MD5 pos st user_name pass =
     (if exists_p1 st user_name then (False, st)
      else
        let new_user = \<lparr>username = user_name, pass_hash = mdString MD5 pass, content = []\<rparr>
        in (True,
            st\<lparr>auth_table_p1 :=
                 take pos (auth_table_p1 st) @ [(user_name, new_user)]
                 @ drop pos (auth_table_p1 st)\<rparr>))"

text \<open>
  \<^verbatim>\<open>get_user_data\<close> of p1 returns \<^verbatim>\<open>{false, message}\<close> on each failure and
  \<^verbatim>\<open>{true, data}\<close> on success.
\<close>

definition get_user_data_p1 ::
  "(string \<Rightarrow> vec) \<Rightarrow> Storage_p1 \<Rightarrow> string \<Rightarrow> string \<Rightarrow> string \<Rightarrow> (bool \<times> vec) option" where
  "get_user_data_p1 MD5 st user_name pass who =
     (if map_of (auth_table_p1 st) user_name = None then Some (False, RES_ERR_LOGIN)
      else case auth_p1 MD5 st user_name pass of
        None \<Rightarrow> None
      | Some False \<Rightarrow> Some (False, RES_ERR_LOGIN)
      | Some True \<Rightarrow>
          (case map_of (auth_table_p1 st) who of
             None \<Rightarrow> Some (False, RES_ERR_NO_USER)
           | Some user_who \<Rightarrow>
               if length (content user_who) = 0 then Some (False, RES_ERR_NO_DATA)
               else Some (True, content user_who)))"

text \<open>The loop of \<^verbatim>\<open>persist\<close> of p1 over the elements of the map.\<close>

fun persist_loop :: "(string \<times> AuthTableEntry) list \<Rightarrow> vec \<Rightarrow> vec" where
  "persist_loop [] data = data"
| "persist_loop (element # rest) data =
     persist_loop rest
       (data @ AUTHENTRY @ le32 (length (fst element)) @ fst element
        @ le32 (length (pass_hash (snd element))) @ pass_hash (snd element)
        @ le32 (length (content (snd element)))
        @ (if length (content (snd element)) > 0 then content (snd element) else []))"

text \<open>
  \<^verbatim>\<open>persist\<close> of p1 ends with the \<^verbatim>\<open>write_file\<close> to
  \<^verbatim>\<open>filename + ".tmp"\<close>; it calls nothing else.
\<close>

definition persist_p1 :: "Storage_p1 \<Rightarrow> (string \<rightharpoonup> vec) \<Rightarrow> (string \<rightharpoonup> vec)" where
  "persist_p1 st disk =
     write_file disk (filename_p1 st @ ''.tmp'') (persist_loop (auth_table_p1 st) [])"

section \<open>The command handlers (p1/server/server\_commands.cc)\<close>

text \<open>
  The handlers index the request vector without a bounds check.  \<open>read_at\<close> is
  \<^verbatim>\<open>req[i]\<close>: inside the vector its byte, past the end the byte \<open>oob k\<close> that lies
  \<open>k\<close> places behind the vector in memory.  \<open>read_range\<close> is
  \<^verbatim>\<open>string(req.data() + start, n)\<close>.
\<close>

definition read_at :: "vec \<Rightarrow> (nat \<Rightarrow> char) \<Rightarrow> nat \<Rightarrow> char" where
  "read_at req oob i = (if i < length req then req ! i else oob (i - length req))"

definition read_range :: "vec \<Rightarrow> (nat \<Rightarrow> char) \<Rightarrow> nat \<Rightarrow> nat \<Rightarrow> string" where
  "read_range req oob start n = map (read_at req oob) [start..<start + n]"

text \<open>
  The scanning loop \<^verbatim>\<open>while(i < req.size() && c != '\n') c = req[++i];\<close> returns
  the final \<open>i\<close>.
\<close>

function scan_newline :: "vec \<Rightarrow> (nat \<Rightarrow> char) \<Rightarrow> nat \<Rightarrow> char \<Rightarrow> nat" where
  "scan_newline req oob i c =
     (if i < length req \<and> c \<noteq> newline
      then scan_newline req oob (Suc i) (read_at req oob (Suc i))
      else i)"
  by pat_completeness auto
termination
  by (relation "measure (\<lambda>(req, oob, i, c). length req - i)") auto

text \<open>
  \<^verbatim>\<open>string((char*) rv.second.data())\<close>: the bytes of the vector up to the first
  NUL, reading on into the memory \<open>after\<close> the vector when the vector holds none.
\<close>

definition c_str :: "vec \<Rightarrow> string \<Rightarrow> string" where
  "c_str bytes after = takeWhile (\<lambda>c. c \<noteq> CHR 0x00) (bytes @ after)"

text \<open>
  \<^verbatim>\<open>server_cmd_get\<close>, returning the reply before encryption.  When the request
  holds no newline the second scan starts at \<open>size + 1\<close> and the length of
  \<^verbatim>\<open>who\<close>, \<^verbatim>\<open>req.size() - i\<close>, wraps around in \<^verbatim>\<open>size_t\<close>: the string
  constructor throws and no reply is sent (\<open>None\<close>).  The storage is only read.
\<close>

definition server_cmd_get ::
  "(string \<Rightarrow> vec) \<Rightarrow> Storage_p1 \<Rightarrow> vec \<Rightarrow> (nat \<Rightarrow> char) \<Rightarrow> string \<Rightarrow> string option" where
  "server_cmd_get MD5 storage req oob after =
     (let i1 = scan_newline req oob 0 (read_at req oob 0);
          user = read_range req oob 0 i1;
          j = Suc i1;
          i2 = scan_newline req oob j (read_at req oob j);
          pass = read_range req oob j (i2 - j)
      in if length req < i2 then None
         else
           let who = read_range req oob (Suc i2) (length req - i2);
               res = (if length user = 0 \<or> length pass = 0 \<or> length who = 0
                         \<or> length user > LEN_UNAME \<or> length pass > LEN_PASS
                         \<or> length who > LEN_UNAME
                      then RES_ERR_MSG_FMT else RES_OK)
           in case get_user_data_p1 MD5 storage user pass who of
                None \<Rightarrow> None
              | Some rv \<Rightarrow> Some (if \<not> fst rv then c_str (snd rv) after else res))"

text \<open>
  \<^verbatim>\<open>server_cmd_reg\<close>, returning the reply before encryption and the storage.  The
  length of \<^verbatim>\<open>pass\<close>, \<^verbatim>\<open>req.size() - i - 1\<close>, wraps around when the request
  holds no newline.
\<close>

definition server_cmd_reg ::
  "(string \<Rightarrow> vec) \<Rightarrow> nat \<Rightarrow> Storage_p1 \<Rightarrow> vec \<Rightarrow> (nat \<Rightarrow> char)
     \<Rightarrow> (string \<times> Storage_p1) option" where
  "server_cmd_reg MD5 pos storage req oob =
     (let i = scan_newline req oob 0 (read_at req oob 0);
          user = read_range req oob 0 i
      in if length req < Suc i then None
         else
           let pass = read_range req oob (Suc i) (length req - i - 1)
           in if length user = 0 \<or> length pass = 0
                 \<or> length user > LEN_UNAME \<or> length pass > LEN_PASS
              then Some (RES_ERR_MSG_FMT, storage)
              else case add_user_p1 MD5 pos storage user pass of
                     (added, storage1) \<Rightarrow>
                       Some (if \<not> added then RES_ERR_USER_EXISTS else RES_OK, storage1))"

section \<open>Concrete states for the evaluations\<close>

text \<open>
  What the registration call and a later request find in memory: the first bytes of
  the password object (its data pointer, which differs between the two call paths) and
  the bytes behind the digest buffer of the frame.
\<close>

definition reg_memory :: call_memory where
  "reg_memory =
     \<lparr>pass_object = [CHR 0x40, CHR 0xE1, CHR 0x5A, CHR 0x1C, CHR 0xFE, CHR 0x7F, CHR 0x00, CHR 0x00],
      after_digest = [CHR 0x90, CHR 0xE1, CHR 0x00]\<rparr>"

definition req_memory :: call_memory where
  "req_memory =
     \<lparr>pass_object = [CHR 0x10, CHR 0xD8, CHR 0x5A, CHR 0x1C, CHR 0xFE, CHR 0x7F, CHR 0x00, CHR 0x00],
      after_digest = [CHR 0x60, CHR 0xD8, CHR 0x00]\<rparr>"

text \<open>
  The p3 store with four buckets, constructed and loaded on a disk without the data
  file; the same store after \<^verbatim>\<open>REG(bob, pw)\<close>; and that store after a
  \<^verbatim>\<open>KVI(k, w)\<close> sent by \<^verbatim>\<open>bob\<close>.  \<^verbatim>\<open>std::hash\<close> is stood in for by the
  length of the key.
\<close>

definition loaded_store :: Storage_p3 where
  "loaded_store =
     (case load_p3 length (Storage_p3_new ''db'' 4) Map.empty of
        None \<Rightarrow> Storage_p3_new ''db'' 4
      | Some (ok, st, disk) \<Rightarrow> st)"

definition registered_store :: Storage_p3 where
  "registered_store =
     (case add_user_p3 sample_digest length reg_memory loaded_store ''bob'' ''pw'' of
        None \<Rightarrow> loaded_store
      | Some (added, st) \<Rightarrow> st)"

definition example_store :: Storage_p3 where
  "example_store =
     (case kv_insert_p3 sample_digest length req_memory registered_store ''bob'' ''pw'' ''k'' ''w'' of
        None \<Rightarrow> registered_store
      | Some (res, st) \<Rightarrow> st)"

text \<open>
  A p1 store holding one user, whose \<^verbatim>\<open>pass_hash\<close> is the MD5 of \<^verbatim>\<open>pw\<close> in
  hexadecimal and whose content is \<^verbatim>\<open>hello\<close>.
\<close>

definition alice_p1 :: Storage_p1 where
  "alice_p1 =
     \<lparr>auth_table_p1 =
        [(''alice'', \<lparr>username = ''alice'', pass_hash = ''8fe4c11451281c094a6578e6ddbf5eed'',
                     content = ''hello''\<rparr>)],
      filename_p1 = ''db''\<rparr>"

section \<open>Theorems\<close>

subsection \<open>The MRU index\<close>

lemma erase_first_length: "length (erase_first k xs) \<le> length xs"
  by (induction xs) auto

lemma erase_first_subset: "set (erase_first k xs) \<subseteq> set xs"
  by (induction xs) auto

lemma erase_first_distinct: "distinct xs \<Longrightarrow> distinct (erase_first k xs)"
proof (induction xs)
  case Nil
  then show ?case by simp
next
  case (Cons x xs)
  then show ?case using erase_first_subset [of k xs] by auto
qed

lemma erase_first_removes: "distinct xs \<Longrightarrow> k \<notin> set (erase_first k xs)"
  by (induction xs) auto

lemma mru_insert_mru: "mru (mru_insert k m) = erase_first k (mru m) @ [k]"
  by (simp add: mru_insert_def mru_remove_def)

lemma mru_insert_distinct: "distinct (mru m) \<Longrightarrow> distinct (mru (mru_insert k m))"
  by (simp add: mru_insert_mru erase_first_distinct erase_first_removes)

lemma mru_apply_distinct: "distinct (mru m) \<Longrightarrow> distinct (mru (mru_apply x m))"
  by (cases x) (simp_all add: mru_insert_distinct mru_remove_def mru_clear_def erase_first_distinct)

lemma mru_run_distinct: "distinct (mru m) \<Longrightarrow> distinct (mru (mru_run xs m))"
  by (induction xs arbitrary: m) (simp_all add: mru_apply_distinct)

lemma erase_first_absent: "k \<notin> set xs \<Longrightarrow> erase_first k xs = xs"
  by (induction xs) auto

lemma mru_insert_grows:
  "k \<notin> set (mru m) \<Longrightarrow> length (mru (mru_insert k m)) = Suc (length (mru m))"
  by (simp add: mru_insert_mru erase_first_absent)

lemma mru_insert_keeps_max: "max_m (mru_insert k m) = max_m m"
  by (simp add: mru_insert_def mru_remove_def)

lemma get_loop_eq:
  "get_loop d n rv = rv @ concat (map (\<lambda>i. newline # d ! i) (rev [1..<Suc n]))"
  by (induction n arbitrary: rv) simp_all

lemma nth_from_one: "map ((!) d) [1..<length d] = tl d"
proof (cases d)
  case Nil
  then show ?thesis by simp
next
  case (Cons x xs)
  have "map ((!) (x # xs)) [Suc 0..<Suc (length xs)] = map ((!) (x # xs) \<circ> Suc) [0..<length xs]"
    by (simp only: map_Suc_upt [symmetric] map_map)
  also have "\<dots> = xs"
    by (simp add: comp_def map_nth)
  finally show ?thesis using Cons by simp
qed

lemma mru_get_skips_front:
  assumes "mru m \<noteq> []"
  shows "mru_get past_end m
           = Some (past_end @ concat (map (\<lambda>k. newline # k) (rev (tl (mru m)))))"
proof -
  from assms have n: "Suc (length (mru m) - 1) = length (mru m)" by simp
  have "map (\<lambda>i. newline # mru m ! i) (rev [1..<length (mru m)])
          = map (\<lambda>k. newline # k) (rev (map ((!) (mru m)) [1..<length (mru m)]))"
    by (simp add: rev_map comp_def)
  then show ?thesis
    using assms by (simp add: mru_get_def get_loop_eq n nth_from_one del: One_nat_def)
qed

text \<open>
  C5.  The claim: with capacity \<open>K\<close>, after any sequence of insert, remove and clear the
  index holds at most \<open>K\<close> keys.  The code at a capacity of 1: after
  \<^verbatim>\<open>insert("a"); insert("b")\<close> the deque holds both keys, two where the capacity
  is one, and the least recent key \<^verbatim>\<open>"a"\<close> has not been dropped.
\<close>

theorem mru_insert_exceeds_capacity:
  "mru (mru_run [Insert ''a'', Insert ''b''] (mru_manager_new 1)) = [''a'', ''b'']
   \<and> max_m (mru_run [Insert ''a'', Insert ''b''] (mru_manager_new 1)) = 1
   \<and> length (mru (mru_run [Insert ''a'', Insert ''b''] (mru_manager_new 1)))
       > max_m (mru_run [Insert ''a'', Insert ''b''] (mru_manager_new 1))"
  by (simp add: mru_insert_def mru_remove_def mru_manager_new_def)

text \<open>
  C6.  The claim: \<^verbatim>\<open>get()\<close> returns the held keys, most recent first and
  newline-delimited, and the empty string on an empty index.  The code, on the index
  holding \<^verbatim>\<open>"a"\<close> then \<^verbatim>\<open>"b"\<close> (most recent): whatever the slot past the end
  holds, the result is that content, a newline and \<^verbatim>\<open>"b"\<close>; the oldest key
  \<^verbatim>\<open>"a"\<close> is missing and the result differs from \<^verbatim>\<open>"b\na"\<close>.  On the empty
  index the code returns nothing.
\<close>

theorem mru_get_misses_oldest:
  "mru_get past_end (mru_run [Insert ''a'', Insert ''b''] (mru_manager_new 2))
     = Some (past_end @ [newline] @ ''b'')
   \<and> get_spec (mru_run [Insert ''a'', Insert ''b''] (mru_manager_new 2))
     = ''b'' @ [newline] @ ''a''
   \<and> mru_get past_end (mru_run [Insert ''a'', Insert ''b''] (mru_manager_new 2))
     \<noteq> Some (get_spec (mru_run [Insert ''a'', Insert ''b''] (mru_manager_new 2)))
   \<and> mru_get past_end (mru_manager_new 2) = None"
  by (simp add: mru_get_def get_spec_def mru_insert_def mru_remove_def mru_manager_new_def
      newline_def)

subsection \<open>The quota tracker\<close>

lemma check_ignores_events:
  "fst (check t a qt) = (\<not> q_amt qt + a > max_q qt)"
  by (simp add: check_def Let_def)

lemma copy_q_amt: "q_amt (quota_tracker_copy other uninit) = uninit"
  by (simp add: quota_tracker_copy_def quota_tracker_new_def)

text \<open>
  C2.  The claim: \<^verbatim>\<open>check(amount)\<close> at time \<open>t\<close> is true exactly when the amount
  plus the amounts of the events newer than \<open>t - duration\<close> fits in \<open>max_amount\<close>, so
  expired events release their amount.  The code, on a tracker of 10 units per 5
  seconds whose \<^verbatim>\<open>q_amt\<close> started at 0: after \<^verbatim>\<open>add(10)\<close> at second 0, a
  \<^verbatim>\<open>check(1)\<close> at second 100 evicts the event and still answers false, where the
  specified answer is true.
\<close>

theorem check_counts_expired_events:
  "check 100 1 (add 0 10 (quota_tracker_new 10 5 0))
     = (False, \<lparr>events = [], q_amt = 10, max_q = 10, dur = 5\<rparr>)
   \<and> check_spec 10 5 [\<lparr>when_t = 0, amnt = 10\<rparr>] 100 1 = True"
  by (simp add: check_def add_def quota_tracker_new_def difftime_def check_spec_def
      recent_sum_def)

text \<open>
  C10.  The claim: a copy-constructed tracker answers every \<^verbatim>\<open>check\<close> as the
  original does at the same instant.  The code: the original, 10 units per 5 seconds,
  has consumed 10 at second 0; its copy, whose \<^verbatim>\<open>q_amt\<close> starts at 0, holds the
  same event queue and yet allows a \<^verbatim>\<open>check(1)\<close> at second 0 that the original
  refuses.
\<close>

theorem copy_loses_running_sum:
  "fst (check 0 1 (add 0 10 (quota_tracker_new 10 5 0))) = False
   \<and> fst (check 0 1 (quota_tracker_copy (add 0 10 (quota_tracker_new 10 5 0)) 0)) = True
   \<and> events (quota_tracker_copy (add 0 10 (quota_tracker_new 10 5 0)) 0)
       = events (add 0 10 (quota_tracker_new 10 5 0))"
  by (simp add: check_def add_def quota_tracker_new_def quota_tracker_copy_def difftime_def)

subsection \<open>The sharded hash table\<close>

lemma find_key_None: "find_key key b = None \<longleftrightarrow> key \<notin> fst ` set b"
  by (induction b) auto

lemma find_key_Some:
  "find_key key b = Some i \<Longrightarrow> i < length b \<and> fst (b ! i) = key"
proof (induction b arbitrary: i)
  case Nil
  then show ?case by simp
next
  case (Cons e es)
  then show ?case by (auto split: if_splits)
qed

lemma find_key_append_new:
  "find_key key b = None \<Longrightarrow> find_key key (b @ [(key, val)]) = Some (length b)"
  by (induction b) (auto split: if_splits)

lemma find_key_update:
  "find_key key b = Some i \<Longrightarrow> find_key key (b[i := (fst (b ! i), val)]) = Some i"
proof (induction b arbitrary: i)
  case Nil
  then show ?case by simp
next
  case (Cons e es)
  then show ?case by (cases i) (auto split: if_splits)
qed

lemma contains_key_iff: "contains_key key b \<longleftrightarrow> key \<in> fst ` set b"
  by (induction b) auto

lemma placed_iff:
  "placed key_hash t \<longleftrightarrow>
     (\<forall>i < length t. \<forall>e \<in> set (t ! i). key_hash (fst e) mod length t = i)"
proof
  assume p: "placed key_hash t"
  show "\<forall>i < length t. \<forall>e \<in> set (t ! i). key_hash (fst e) mod length t = i"
  proof (intro allI impI ballI)
    fix i e
    assume i: "i < length t" and e: "e \<in> set (t ! i)"
    from i have "(i, t ! i) \<in> set (enumerate 0 t)"
      by (simp add: in_set_enumerate_eq)
    with p have "list_all (\<lambda>e. key_hash (fst e) mod length t = i) (t ! i)"
      by (auto simp: placed_def list_all_iff)
    with e show "key_hash (fst e) mod length t = i"
      by (simp add: list_all_iff)
  qed
next
  assume h: "\<forall>i < length t. \<forall>e \<in> set (t ! i). key_hash (fst e) mod length t = i"
  have "\<And>x. x \<in> set (enumerate 0 t) \<Longrightarrow>
          list_all (\<lambda>e. key_hash (fst e) mod length t = fst x) (snd x)"
  proof -
    fix x
    assume "x \<in> set (enumerate 0 t)"
    then have "fst x < length t" and "snd x = t ! fst x"
      by (simp_all add: in_set_enumerate_eq)
    with h show "list_all (\<lambda>e. key_hash (fst e) mod length t = fst x) (snd x)"
      by (simp add: list_all_iff)
  qed
  then show "placed key_hash t"
    by (fastforce simp: placed_def list_all_iff)
qed

lemma placed_home:
  assumes "placed key_hash t" and "t \<noteq> []"
  shows "key \<in> table_keys t \<longleftrightarrow> key \<in> fst ` set (t ! (key_hash key mod length t))"
proof
  assume "key \<in> table_keys t"
  then obtain b e where b: "b \<in> set t" and e: "e \<in> set b" and k: "fst e = key"
    by (auto simp: table_keys_def)
  from b obtain i where i: "i < length t" and bi: "t ! i = b"
    by (auto simp: in_set_conv_nth)
  from assms(1) i bi e have "key_hash (fst e) mod length t = i"
    by (auto simp: placed_iff)
  with k bi e show "key \<in> fst ` set (t ! (key_hash key mod length t))"
    by auto
next
  assume h: "key \<in> fst ` set (t ! (key_hash key mod length t))"
  from assms(2) have "key_hash key mod length t < length t" by simp
  then have "t ! (key_hash key mod length t) \<in> set t" by simp
  with h show "key \<in> table_keys t"
    by (auto simp: table_keys_def)
qed

lemma placed_new: "placed key_hash (map elements (ConcurrentHashTable n))"
  by (simp add: placed_iff ConcurrentHashTable_def)

lemma placed_new_p5: "placed key_hash (ConcurrentHashTable_p5 n)"
  by (simp add: placed_iff ConcurrentHashTable_p5_def)

lemma placed_append:
  assumes "placed key_hash t" and "t \<noteq> []"
  shows "placed key_hash (t[key_hash key mod length t := t ! (key_hash key mod length t) @ [(key, val)]])"
  using assms by (auto simp: placed_iff nth_list_update)

lemma placed_update:
  assumes "placed key_hash t" and "b < length t" and "i < length (t ! b)"
  shows "placed key_hash (t[b := (t ! b)[i := (fst (t ! b ! i), val)]])"
proof -
  have "\<And>e. e \<in> set ((t ! b)[i := (fst (t ! b ! i), val)]) \<Longrightarrow>
          fst e \<in> fst ` set (t ! b)"
  proof -
    fix e
    assume "e \<in> set ((t ! b)[i := (fst (t ! b ! i), val)])"
    then have "e = (fst (t ! b ! i), val) \<or> e \<in> set (t ! b)"
      using set_update_subset_insert [of "t ! b" i "(fst (t ! b ! i), val)"] by auto
    with assms(3) show "fst e \<in> fst ` set (t ! b)"
      by (auto intro: nth_mem)
  qed
  with assms(1,2) show ?thesis
    by (fastforce simp: placed_iff nth_list_update)
qed

lemma placed_erase:
  assumes "placed key_hash t" and "b < length t"
  shows "placed key_hash (t[b := take i (t ! b) @ drop (Suc i) (t ! b)])"
proof -
  have "set (take i (t ! b) @ drop (Suc i) (t ! b)) \<subseteq> set (t ! b)"
    using set_take_subset [of i "t ! b"] set_drop_subset [of "Suc i" "t ! b"] by auto
  with assms show ?thesis
    by (fastforce simp: placed_iff nth_list_update)
qed

lemma elements_update:
  "b < length t \<Longrightarrow> map elements (t[b := (t ! b)\<lparr>elements := es\<rparr>]) = (map elements t)[b := es]"
  by (simp add: map_update)

lemma elements_lock:
  "map elements (t[b := (t ! b)\<lparr>mtx := n\<rparr>]) = map elements t"
proof (cases "b < length t")
  case True
  then have "(map elements t)[b := elements (t ! b)] = map elements t"
    by (simp add: list_update_same_conv)
  then show ?thesis by (simp add: map_update)
next
  case False
  then have "t[b := (t ! b)\<lparr>mtx := n\<rparr>] = t"
    by (simp add: list_update_beyond)
  then show ?thesis by simp
qed

lemma insert_p3_placed:
  assumes "placed key_hash (map elements t)"
    and "insert_p3 key_hash key val on_success t s = Some (r, t1, s1)"
  shows "placed key_hash (map elements t1)"
proof -
  let ?b = "key_hash key mod length t"
  from assms(2) have ne: "t \<noteq> []"
    by (auto simp: insert_p3_def split: if_splits)
  then have b: "?b < length t" by simp
  show ?thesis
  proof (cases r)
    case True
    with assms(2) ne have "t1 = t[?b := (t ! ?b)\<lparr>elements := elements (t ! ?b) @ [(key, val)]\<rparr>]"
      by (auto simp: insert_p3_def Let_def split: if_splits option.splits)
    with placed_append [OF assms(1), of key val] ne b show ?thesis
      by (simp add: elements_update)
  next
    case False
    with assms(2) ne have "t1 = t"
      by (auto simp: insert_p3_def Let_def split: if_splits option.splits)
    with assms(1) show ?thesis by simp
  qed
qed

lemma upsert_p3_placed:
  assumes "placed key_hash (map elements t)"
    and "upsert_p3 key_hash key val on_ins on_upt t s = Some (r, t1, s1)"
  shows "placed key_hash (map elements t1)"
proof -
  let ?b = "key_hash key mod length t"
  from assms(2) have ne: "t \<noteq> []"
    by (auto simp: upsert_p3_def split: if_splits)
  then have b: "?b < length t" by simp
  show ?thesis
  proof (cases "find_key key (elements (t ! ?b))")
    case None
    with assms(2) ne have "t1 = t[?b := (t ! ?b)\<lparr>elements := elements (t ! ?b) @ [(key, val)]\<rparr>]"
      by (auto simp: upsert_p3_def Let_def split: if_splits)
    with placed_append [OF assms(1), of key val] ne b show ?thesis
      by (simp add: elements_update)
  next
    case (Some i)
    then have i: "i < length (map elements t ! ?b)"
      using b by (simp add: find_key_Some)
    from assms(2) Some ne have
      "t1 = t[?b := (t ! ?b)\<lparr>elements := (elements (t ! ?b))[i := (fst (elements (t ! ?b) ! i), val)]\<rparr>]"
      by (auto simp: upsert_p3_def Let_def split: if_splits)
    with placed_update [OF assms(1) _ i, of val] b show ?thesis
      by (simp add: elements_update)
  qed
qed

lemma remove_p3_placed:
  assumes "placed key_hash (map elements t)"
    and "remove_p3 key_hash key on_success t s = Some (r, t1, s1)"
  shows "placed key_hash (map elements t1)"
proof -
  let ?b = "key_hash key mod length t"
  from assms(2) have ne: "t \<noteq> []"
    by (auto simp: remove_p3_def split: if_splits)
  then have b: "?b < length t" by simp
  show ?thesis
  proof (cases "find_key key (elements (t ! ?b))")
    case None
    with assms(2) ne have "t1 = t[?b := (t ! ?b)\<lparr>mtx := Suc (mtx (t ! ?b))\<rparr>]"
      by (auto simp: remove_p3_def Let_def)
    with assms(1) show ?thesis by (simp add: elements_lock)
  next
    case (Some i)
    with assms(2) ne have
      "t1 = t[?b := (t ! ?b)\<lparr>elements := take i (elements (t ! ?b)) @ drop (Suc i) (elements (t ! ?b))\<rparr>]"
      by (auto simp: remove_p3_def Let_def split: if_splits)
    with placed_erase [OF assms(1), of ?b i] b show ?thesis
      by (simp add: elements_update)
  qed
qed

text \<open>
  The p5 \<^verbatim>\<open>insert\<close> does on every table what C7 says, and so does the p3
  \<^verbatim>\<open>insert\<close> on a bucket whose lock is free.
\<close>

lemma insert_p5_exists_or_inserts:
  assumes "t \<noteq> []" and "placed key_hash t"
  shows "insert_p5 key_hash key val on_success t s =
           (if key \<in> table_keys t then Some (False, t, s)
            else Some (True,
                       t[key_hash key mod length t := t ! (key_hash key mod length t) @ [(key, val)]],
                       on_success s))"
  using assms by (simp add: insert_p5_def Let_def placed_home contains_key_iff)

lemma insert_p3_on_free_bucket:
  assumes "t \<noteq> []" and "placed key_hash (map elements t)"
    and "mtx (t ! (key_hash key mod length t)) = 0"
  shows "insert_p3 key_hash key val on_success t s =
           (if key \<in> table_keys (map elements t) then Some (False, t, s)
            else Some (True,
                       t[key_hash key mod length t := (t ! (key_hash key mod length t))
                          \<lparr>elements := elements (t ! (key_hash key mod length t)) @ [(key, val)]\<rparr>],
                       on_success s))"
proof -
  from assms(1) have b: "key_hash key mod length t < length t" by simp
  from assms(1,2) have
    "key \<in> table_keys (map elements t)
       \<longleftrightarrow> key \<in> fst ` set (elements (t ! (key_hash key mod length t)))"
    using placed_home [of key_hash "map elements t" key] b by simp
  then have "key \<in> table_keys (map elements t)
       \<longleftrightarrow> find_key key (elements (t ! (key_hash key mod length t))) \<noteq> None"
    by (simp add: find_key_None)
  with assms(1,3) show ?thesis
    by (cases "find_key key (elements (t ! (key_hash key mod length t)))")
       (simp_all add: insert_p3_def Let_def)
qed

lemma remove_p3_missing_key:
  assumes "t \<noteq> []" and "find_key key (elements (t ! (key_hash key mod length t))) = None"
  shows "remove_p3 key_hash key on_success t s
           = Some (False,
                   t[key_hash key mod length t := (t ! (key_hash key mod length t))
                      \<lparr>mtx := Suc (mtx (t ! (key_hash key mod length t)))\<rparr>],
                   s)"
  using assms by (simp add: remove_p3_def Let_def)

lemma insert_p3_on_held_bucket:
  "mtx (t ! (key_hash key mod length t)) \<noteq> 0 \<Longrightarrow> insert_p3 key_hash key val on_success t s = None"
  by (simp add: insert_p3_def Let_def)

lemma table4: "ConcurrentHashTable 4 = replicate 4 \<lparr>mtx = 0, elements = []\<rparr>"
  by (simp add: ConcurrentHashTable_def)

text \<open>
  C7.  The claim: on every map state, \<^verbatim>\<open>insert(k, v, on_success)\<close> returns exists
  without a change or a call for a present key, and for an absent key appends the
  pair, calls \<open>on_success\<close> once and returns inserted.  The table of p3 with four
  buckets, for every bucket hash: \<^verbatim>\<open>remove\<close> of the absent key \<^verbatim>\<open>k\<close> returns
  false and leaves its shared hold on the bucket's lock; \<^verbatim>\<open>insert\<close> of \<^verbatim>\<open>k\<close>
  on that table, where \<^verbatim>\<open>k\<close> is absent, has no result: it does not return
  inserted, it appends nothing and \<open>on_success\<close> is not called.  The table of p5
  with four buckets, whose locks every operation releases: \<^verbatim>\<open>insert\<close> of the
  absent \<^verbatim>\<open>k\<close> appends the pair, calls \<open>on_success\<close> once and returns true.
\<close>

theorem insert_blocks_after_missing_remove:
  "remove_p3 key_hash ''k'' on_removed (ConcurrentHashTable 4 :: (string, string) table) s
     = Some (False,
             (ConcurrentHashTable 4)[key_hash ''k'' mod 4 := \<lparr>mtx = 1, elements = []\<rparr>],
             s)
   \<and> ''k'' \<notin> table_keys
        (map elements ((ConcurrentHashTable 4 :: (string, string) table)
           [key_hash ''k'' mod 4 := \<lparr>mtx = 1, elements = []\<rparr>]))
   \<and> placed key_hash
        (map elements ((ConcurrentHashTable 4 :: (string, string) table)
           [key_hash ''k'' mod 4 := \<lparr>mtx = 1, elements = []\<rparr>]))
   \<and> insert_p3 key_hash ''k'' ''v'' on_success
        ((ConcurrentHashTable 4)[key_hash ''k'' mod 4 := \<lparr>mtx = 1, elements = []\<rparr>]) s
     = None
   \<and> insert_p5 key_hash ''k'' ''v'' on_success (ConcurrentHashTable_p5 4) s
     = Some (True, (ConcurrentHashTable_p5 4)[key_hash ''k'' mod 4 := [(''k'', ''v'')]], on_success s)"
proof -
  let ?b = "key_hash ''k'' mod 4"
  let ?t = "(ConcurrentHashTable 4 :: (string, string) table)[?b := \<lparr>mtx = 1, elements = []\<rparr>]"
  have e: "map elements ?t = replicate 4 []"
    by (simp add: ConcurrentHashTable_def map_update list_update_same_conv)
  have r: "remove_p3 key_hash ''k'' on_removed (ConcurrentHashTable 4) s = Some (False, ?t, s)"
    by (simp add: remove_p3_def ConcurrentHashTable_def)
  have k: "''k'' \<notin> table_keys (map elements ?t)"
    by (simp only: e) (simp add: table_keys_def)
  have p: "placed key_hash (map elements ?t)"
    by (simp only: e) (simp add: placed_iff)
  have i3: "insert_p3 key_hash ''k'' ''v'' on_success ?t s = None"
    by (simp add: insert_p3_def ConcurrentHashTable_def)
  have i5: "insert_p5 key_hash ''k'' ''v'' on_success (ConcurrentHashTable_p5 4) s
     = Some (True, (ConcurrentHashTable_p5 4)[?b := [(''k'', ''v'')]], on_success s)"
    by (simp add: insert_p5_def ConcurrentHashTable_p5_def)
  from r k p i3 i5 show ?thesis by blast
qed

lemma scan_bucket_eq:
  "scan_bucket f b (s, tr) =
     (fold (\<lambda>e. f (fst e) (snd e)) b s, tr @ map (\<lambda>e. Apply_f (fst e) (snd e)) b)"
  by (induction b arbitrary: s tr) simp_all

lemma scan_all_eq:
  "scan_all f t (s, tr) =
     (fold (\<lambda>e. f (fst e) (snd e)) (concat t) s,
      tr @ map (\<lambda>e. Apply_f (fst e) (snd e)) (concat t))"
  by (induction t arbitrary: s tr) (simp_all add: scan_bucket_eq)

lemma do_all_readonly_p5_order:
  "do_all_readonly_p5 f thn t s =
     (thn (fold (\<lambda>e. f (fst e) (snd e)) (concat t) s),
      map Acquire [0..<length t] @ map (\<lambda>e. Apply_f (fst e) (snd e)) (concat t)
        @ [Run_then] @ map Release [0..<length t])"
  by (simp add: do_all_readonly_p5_def scan_all_eq)

lemma scan_and_unlock_state:
  "fst (scan_and_unlock f i t (s, tr))
     = fold (\<lambda>e. f (fst e) (snd e)) (concat (map elements t)) s"
  by (induction t arbitrary: i s tr) (simp_all add: scan_bucket_eq)

lemma do_all_readonly_p3_state:
  "fst (do_all_readonly_p3 f thn t s)
     = fold (\<lambda>e. f (fst e) (snd e)) (concat (map elements t)) (thn s)"
  by (simp add: do_all_readonly_p3_def Let_def scan_and_unlock_state)

lemma scan_and_unlock_trace:
  "\<exists>rest. snd (scan_and_unlock f i t (s, tr)) = tr @ rest"
proof (induction t arbitrary: i s tr)
  case Nil
  then show ?case by simp
next
  case (Cons b bs)
  obtain rest where
    "snd (scan_and_unlock f (Suc i) bs
           (fold (\<lambda>e. f (fst e) (snd e)) (elements b) s,
            (tr @ map (\<lambda>e. Apply_f (fst e) (snd e)) (elements b)) @ [Release i]))
       = ((tr @ map (\<lambda>e. Apply_f (fst e) (snd e)) (elements b)) @ [Release i]) @ rest"
    using Cons.IH by blast
  then show ?case by (simp add: scan_bucket_eq)
qed

lemma do_all_readonly_p3_then_first:
  "\<exists>rest. snd (do_all_readonly_p3 f thn t s) = map Acquire [0..<length t] @ [Run_then] @ rest"
  using scan_and_unlock_trace [of f 0 t "thn s" "map Acquire [0..<length t] @ [Run_then]"]
  by (simp add: do_all_readonly_p3_def Let_def)

text \<open>
  C8.  The claim: \<^verbatim>\<open>do_all_readonly(f, then)\<close> applies \<open>f\<close> to every pair and only
  after the last application calls \<^verbatim>\<open>then\<close>, before any lock is released.  The
  table of p3, on two buckets of one pair each: \<^verbatim>\<open>then\<close> runs first, before any
  application of \<open>f\<close>, and the lock of bucket 0 is released before \<open>f\<close> reaches
  bucket 1.  The table of p5 on the same pairs follows the claimed order.
\<close>

theorem do_all_readonly_p3_runs_then_first:
  "do_all_readonly_p3 (\<lambda>k v s. s @ [k]) (\<lambda>s. s @ [''then''])
       [\<lparr>mtx = 0, elements = [(''a'', ''1'')]\<rparr>, \<lparr>mtx = 0, elements = [(''b'', ''2'')]\<rparr>] []
     = ([''then'', ''a'', ''b''],
        [Acquire 0, Acquire 1, Run_then, Apply_f ''a'' ''1'', Release 0,
         Apply_f ''b'' ''2'', Release 1])
   \<and> do_all_readonly_p5 (\<lambda>k v s. s @ [k]) (\<lambda>s. s @ [''then''])
       [[(''a'', ''1'')], [(''b'', ''2'')]] []
     = ([''a'', ''b'', ''then''],
        [Acquire 0, Acquire 1, Apply_f ''a'' ''1'', Apply_f ''b'' ''2'', Run_then,
         Release 0, Release 1])"
  by (simp add: do_all_readonly_p3_def do_all_readonly_p5_def upt_rec)

subsection \<open>The storage facade of p3\<close>

lemma do_with_p3_readonly:
  "do_with_p3 key_hash key (\<lambda>v s. (v, g v s)) t s = Some (found, t1, s1) \<Longrightarrow> t1 = t"
proof -
  assume a: "do_with_p3 key_hash key (\<lambda>v s. (v, g v s)) t s = Some (found, t1, s1)"
  let ?b = "key_hash key mod length t"
  from a have ne: "t \<noteq> []"
    by (auto simp: do_with_p3_def split: if_splits)
  show "t1 = t"
  proof (cases "find_key key (elements (t ! ?b))")
    case None
    with a ne show ?thesis by (simp add: do_with_p3_def Let_def)
  next
    case (Some i)
    then have "(elements (t ! ?b))[i := (fst (elements (t ! ?b) ! i), snd (elements (t ! ?b) ! i))]
                 = elements (t ! ?b)"
      by simp
    with a ne Some show ?thesis
      by (auto simp: do_with_p3_def Let_def split: if_splits)
  qed
qed

lemma auth_p3_same_table:
  "auth_table st = auth_table st' \<Longrightarrow>
     auth_p3 MD5 key_hash mem st u p = auth_p3 MD5 key_hash mem st' u p"
  by (simp add: auth_p3_def)

lemma auth_p3_eq:
  "auth_p3 MD5 key_hash mem st u p =
     (if auth_table st = [] then None
      else case find_key u (elements (auth_table st ! (key_hash u mod length (auth_table st)))) of
             None \<Rightarrow> Some False
           | Some i \<Rightarrow>
               if mtx (auth_table st ! (key_hash u mod length (auth_table st))) \<noteq> 0 then None
               else Some (pass_hash (snd (elements (auth_table st
                             ! (key_hash u mod length (auth_table st))) ! i))
                          \<noteq> hashed_pass MD5 mem p))"
  by (simp add: auth_p3_def do_with_p3_def Let_def split: option.splits)

text \<open>
  What \<^verbatim>\<open>auth\<close> answers for a user just registered, whatever the two calls found
  in memory: true exactly when the C string it computes differs from the stored one.
\<close>

lemma add_user_then_auth:
  assumes "add_user_p3 MD5 key_hash mem st u p = Some (True, st1)"
  shows "auth_p3 MD5' key_hash mem' st1 u p'
           = Some (hashed_pass MD5' mem' p' \<noteq> hashed_pass MD5 mem p)"
proof -
  let ?b = "key_hash u mod length (auth_table st)"
  let ?new = "\<lparr>username = u, pass_hash = hashed_pass MD5 mem p, content = []\<rparr>"
  from assms have ne: "auth_table st \<noteq> []"
    by (auto simp: add_user_p3_def insert_p3_def split: if_splits)
  from assms ne have free: "mtx (auth_table st ! ?b) = 0"
    by (auto simp: add_user_p3_def insert_p3_def Let_def split: if_splits)
  from assms ne free have absent: "find_key u (elements (auth_table st ! ?b)) = None"
    by (auto simp: add_user_p3_def insert_p3_def Let_def split: option.splits)
  from assms ne free absent have t1: "auth_table st1 =
      (auth_table st)[?b := (auth_table st ! ?b)
         \<lparr>elements := elements (auth_table st ! ?b) @ [(u, ?new)]\<rparr>]"
    by (auto simp: add_user_p3_def insert_p3_def Let_def split: option.splits)
  from ne have lt: "?b < length (auth_table st)" by simp
  have fk: "find_key u (elements (auth_table st1 ! ?b))
              = Some (length (elements (auth_table st ! ?b)))"
    using t1 lt absent by (simp add: find_key_append_new)
  have len: "length (auth_table st1) = length (auth_table st)"
    using t1 by simp
  have fr: "mtx (auth_table st1 ! ?b) = 0"
    using t1 lt free by simp
  show ?thesis
    using ne lt fk len fr t1 by (auto simp: auth_p3_eq)
qed

lemma loaded_store_eq:
  "loaded_store =
     \<lparr>auth_table = replicate 4 \<lparr>mtx = 0, elements = []\<rparr>,
      kv_store = replicate 4 \<lparr>mtx = 0, elements = []\<rparr>,
      filename = ''db'', f_ptr = Writable []\<rparr>"
  by (simp add: loaded_store_def load_p3_def Storage_p3_new_def ConcurrentHashTable_def)

lemma registered_store_eq:
  "registered_store =
     \<lparr>auth_table =
        (replicate 4 \<lparr>mtx = 0, elements = []\<rparr>)
        [3 := \<lparr>mtx = 0,
               elements = [(''bob'', \<lparr>username = ''bob'',
                                     pass_hash = hashed_pass sample_digest reg_memory ''pw'',
                                     content = []\<rparr>)]\<rparr>],
      kv_store = replicate 4 \<lparr>mtx = 0, elements = []\<rparr>,
      filename = ''db'',
      f_ptr = Writable (AUTHENTRY @ le32 (length ''bob'') @ ''bob'' @ le32 16
                        @ md5_digest sample_digest reg_memory ''pw'' @ le32 0)\<rparr>"
  by (simp add: registered_store_def loaded_store_eq add_user_p3_def insert_p3_def
      log_append_def fwrite_def)

lemma hashed_reg:
  "hashed_pass sample_digest reg_memory ''pw''
     = [CHR 0x40, CHR 0xE1] @ ''..............'' @ [CHR 0x90, CHR 0xE1]"
  by (simp add: hashed_pass_def md5_digest_def sample_digest_def reg_memory_def)

lemma hashed_req:
  "hashed_pass sample_digest req_memory ''pw''
     = [CHR 0x10, CHR 0xD8] @ ''..............'' @ [CHR 0x60, CHR 0xD8]"
  by (simp add: hashed_pass_def md5_digest_def sample_digest_def req_memory_def)

lemma hashed_length_only:
  "length p = length p' \<Longrightarrow> hashed_pass MD5 mem p = hashed_pass MD5 mem p'"
  by (simp add: hashed_pass_def md5_digest_def)

lemma registered_auth:
  "auth_p3 sample_digest length req_memory registered_store ''bob'' ''pw'' = Some True"
  by (simp add: registered_store_eq auth_p3_eq hashed_reg hashed_req)

text \<open>
  C1.  The claim: after \<^verbatim>\<open>REG(u, p)\<close> succeeds, \<^verbatim>\<open>auth(u, p)\<close> is true and
  \<^verbatim>\<open>auth(u, p')\<close> is false for every other password, authentication succeeding
  exactly when the recomputed digest equals the stored one.  The code of p3, on a store
  of four buckets constructed and loaded without a data file, for every digest
  function, every bucket hash and whatever the two calls find in memory: registering
  \<^verbatim>\<open>alice\<close> with \<^verbatim>\<open>pw\<close> succeeds, and an \<^verbatim>\<open>auth\<close> of \<^verbatim>\<open>alice\<close> with any
  password then succeeds exactly when the string it computes differs from the stored
  one.  On the store where \<^verbatim>\<open>bob\<close> registered with \<^verbatim>\<open>pw\<close>, a request with the
  wrong password \<^verbatim>\<open>zz\<close> is therefore authenticated.
\<close>

theorem auth_accepts_differing_digest:
  "(case load_p3 key_hash (Storage_p3_new ''db'' 4) Map.empty of
      None \<Rightarrow> False
    | Some (ok, st0, disk) \<Rightarrow>
        (case add_user_p3 MD5 key_hash mem st0 ''alice'' ''pw'' of
           None \<Rightarrow> False
         | Some (added, st) \<Rightarrow>
             added
             \<and> auth_p3 MD5 key_hash mem' st ''alice'' pass
                 = Some (hashed_pass MD5 mem' pass \<noteq> hashed_pass MD5 mem ''pw'')))
   \<and> auth_p3 sample_digest length req_memory registered_store ''bob'' ''zz'' = Some True"
proof -
  have h: "hashed_pass sample_digest req_memory ''zz'' = hashed_pass sample_digest req_memory ''pw''"
    by (rule hashed_length_only) simp
  have "auth_p3 sample_digest length req_memory registered_store ''bob'' ''zz''
          = auth_p3 sample_digest length req_memory registered_store ''bob'' ''pw''"
    by (simp only: auth_p3_eq h)
  then have c: "auth_p3 sample_digest length req_memory registered_store ''bob'' ''zz'' = Some True"
    by (simp add: registered_auth)
  have "case load_p3 key_hash (Storage_p3_new ''db'' 4) Map.empty of
      None \<Rightarrow> False
    | Some (ok, st0, disk) \<Rightarrow>
        (case add_user_p3 MD5 key_hash mem st0 ''alice'' ''pw'' of
           None \<Rightarrow> False
         | Some (added, st) \<Rightarrow>
             added
             \<and> auth_p3 MD5 key_hash mem' st ''alice'' pass
                 = Some (hashed_pass MD5 mem' pass \<noteq> hashed_pass MD5 mem ''pw''))"
    by (simp add: load_p3_def Storage_p3_new_def ConcurrentHashTable_def add_user_p3_def
        insert_p3_def log_append_def fwrite_def auth_p3_def do_with_p3_def Let_def)
  with c show ?thesis by simp
qed

lemma fwrite_open: "is_open h \<Longrightarrow> \<exists>h1. fwrite data h = Some h1 \<and> is_open h1"
  by (cases h) (simp_all add: is_open_def fwrite_def)

lemma upsert_p3_result:
  assumes "t \<noteq> []" and "mtx (t ! (key_hash k mod length t)) = 0"
  shows "\<exists>t1 i. upsert_p3 key_hash k v on_ins on_upt t s
                  = Some (find_key k (elements (t ! (key_hash k mod length t))) = None, t1,
                          if find_key k (elements (t ! (key_hash k mod length t))) = None
                          then on_ins s else on_upt s)
               \<and> length t1 = length t
               \<and> mtx (t1 ! (key_hash k mod length t)) = 0
               \<and> find_key k (elements (t1 ! (key_hash k mod length t))) = Some i
               \<and> snd (elements (t1 ! (key_hash k mod length t)) ! i) = v"
proof (cases "find_key k (elements (t ! (key_hash k mod length t)))")
  case None
  from assms have lt: "key_hash k mod length t < length t" by simp
  show ?thesis
    using None assms lt
    by (simp add: upsert_p3_def Let_def find_key_append_new)
next
  case (Some i)
  from assms have lt: "key_hash k mod length t < length t" by simp
  from Some have i: "i < length (elements (t ! (key_hash k mod length t)))"
    by (simp add: find_key_Some)
  show ?thesis
    using Some assms lt i
    by (simp add: upsert_p3_def Let_def find_key_update)
qed

lemma get_found:
  assumes "t \<noteq> []" and "find_key k (elements (t ! (key_hash k mod length t))) = Some i"
  shows "do_with_readonly_p3 key_hash k (\<lambda>value data. data @ value) t []
           = Some (True, snd (elements (t ! (key_hash k mod length t)) ! i))"
  using assms by (simp add: do_with_readonly_p3_def Let_def)

lemma insert_p3_result:
  assumes "t \<noteq> []" and "mtx (t ! (key_hash k mod length t)) = 0"
  shows "insert_p3 key_hash k v on_success t s =
           (if find_key k (elements (t ! (key_hash k mod length t))) = None
            then Some (True,
                       t[key_hash k mod length t := (t ! (key_hash k mod length t))
                          \<lparr>elements := elements (t ! (key_hash k mod length t)) @ [(k, v)]\<rparr>],
                       on_success s)
            else Some (False, t, s))"
  using assms by (auto simp: insert_p3_def Let_def)

lemma kv_get_found:
  assumes "auth_p3 MD5 key_hash mem st u p = Some True"
    and "kv_store st \<noteq> []"
    and "find_key k (elements (kv_store st ! (key_hash k mod length (kv_store st)))) = Some i"
  shows "kv_get_p3 MD5 key_hash mem st u p k
           = Some (False, snd (elements (kv_store st ! (key_hash k mod length (kv_store st))) ! i))"
  using assms get_found [of "kv_store st" k key_hash i] by (simp add: kv_get_p3_def)

lemma kv_insert_step:
  assumes auth: "auth_p3 MD5 key_hash mem st u p = Some True"
    and ne: "kv_store st \<noteq> []"
    and free: "mtx (kv_store st ! (key_hash k mod length (kv_store st))) = 0"
    and opn: "is_open (f_ptr st)"
  shows "if find_key k (elements (kv_store st ! (key_hash k mod length (kv_store st)))) = None
         then \<exists>st1. kv_insert_p3 MD5 key_hash mem st u p k v = Some (RES_OK, st1)
                \<and> auth_table st1 = auth_table st
                \<and> length (kv_store st1) = length (kv_store st)
                \<and> find_key k (elements (kv_store st1 ! (key_hash k mod length (kv_store st))))
                    = Some (length (elements (kv_store st ! (key_hash k mod length (kv_store st)))))
                \<and> snd (elements (kv_store st1 ! (key_hash k mod length (kv_store st)))
                        ! length (elements (kv_store st ! (key_hash k mod length (kv_store st)))))
                    = v
         else kv_insert_p3 MD5 key_hash mem st u p k v = Some (RES_ERR_KEY, st)"
proof (cases "find_key k (elements (kv_store st ! (key_hash k mod length (kv_store st))))")
  case None
  let ?b = "key_hash k mod length (kv_store st)"
  from ne have lt: "?b < length (kv_store st)" by simp
  obtain h1 where h1: "fwrite (KVENTRY @ le32 (length k) @ k @ le32 (length v) @ v) (f_ptr st) = Some h1"
    using fwrite_open [OF opn] by blast
  show ?thesis
    using None auth ne free lt h1
    by (simp add: kv_insert_p3_def insert_p3_result log_append_def find_key_append_new)
next
  case (Some i)
  with auth ne free show ?thesis
    by (simp add: kv_insert_p3_def insert_p3_result)
qed

lemma kv_upsert_step:
  assumes auth: "auth_p3 MD5 key_hash mem st u p = Some True"
    and ne: "kv_store st \<noteq> []"
    and free: "mtx (kv_store st ! (key_hash k mod length (kv_store st))) = 0"
    and opn: "is_open (f_ptr st)"
  shows "\<exists>st1 i. kv_upsert_p3 MD5 key_hash mem st u p k v
                   = Some (if find_key k (elements (kv_store st
                                 ! (key_hash k mod length (kv_store st)))) = None
                           then RES_OKINS else RES_OKUPD, st1)
                \<and> auth_table st1 = auth_table st
                \<and> length (kv_store st1) = length (kv_store st)
                \<and> mtx (kv_store st1 ! (key_hash k mod length (kv_store st))) = 0
                \<and> is_open (f_ptr st1)
                \<and> find_key k (elements (kv_store st1 ! (key_hash k mod length (kv_store st))))
                    = Some i
                \<and> snd (elements (kv_store st1 ! (key_hash k mod length (kv_store st))) ! i) = v"
proof -
  let ?b = "key_hash k mod length (kv_store st)"
  let ?ins = "log_append (KVENTRY @ le32 (length k) @ k @ le32 (length v) @ v)"
  let ?upd = "log_append (KVUPDATE @ le32 (length k) @ k @ le32 (length v) @ v)"
  let ?absent = "find_key k (elements (kv_store st ! ?b)) = None"
  obtain t1 i where u: "upsert_p3 key_hash k v ?ins ?upd (kv_store st) (Some (f_ptr st))
        = Some (?absent, t1, if ?absent then ?ins (Some (f_ptr st)) else ?upd (Some (f_ptr st)))"
      and len: "length t1 = length (kv_store st)"
      and fr: "mtx (t1 ! ?b) = 0"
      and fk: "find_key k (elements (t1 ! ?b)) = Some i"
      and val: "snd (elements (t1 ! ?b) ! i) = v"
    using ne free
      upsert_p3_result [where t = "kv_store st" and key_hash = key_hash and k = k and v = v
        and on_ins = ?ins and on_upt = ?upd and s = "Some (f_ptr st)"]
    by blast
  have "\<exists>h1. (if ?absent then ?ins (Some (f_ptr st)) else ?upd (Some (f_ptr st))) = Some h1
          \<and> is_open h1"
    using fwrite_open [OF opn, of "KVENTRY @ le32 (length k) @ k @ le32 (length v) @ v"]
      fwrite_open [OF opn, of "KVUPDATE @ le32 (length k) @ k @ le32 (length v) @ v"]
    by (cases ?absent) (simp_all add: log_append_def)
  then obtain h1 where
    h1: "(if ?absent then ?ins (Some (f_ptr st)) else ?upd (Some (f_ptr st))) = Some h1"
    and o1: "is_open h1"
    by blast
  have "kv_upsert_p3 MD5 key_hash mem st u p k v
          = Some (if ?absent then RES_OKINS else RES_OKUPD, st\<lparr>kv_store := t1, f_ptr := h1\<rparr>)"
    using auth u h1 by (simp add: kv_upsert_p3_def)
  with len fr fk val o1 show ?thesis by simp
qed

text \<open>
  C4, as amended.  For a user whose authentication succeeds at every request, on a
  store whose key/value table has at least one bucket, whose data file handle is open
  and whose bucket of \<open>k\<close> carries no lock hold left behind: when no pair is stored
  under \<open>k\<close>, \<^verbatim>\<open>KVI(k, v)\<close> answers \<^verbatim>\<open>OK\<close> and the following \<^verbatim>\<open>KVG(k)\<close>
  returns exactly \<open>v\<close>; when a pair is stored under \<open>k\<close>, \<^verbatim>\<open>KVI(k, v)\<close> answers
  \<^verbatim>\<open>ERR_KEY\<close> and leaves the store as it was; and \<^verbatim>\<open>KVU(k, va)\<close>,
  \<^verbatim>\<open>KVU(k, vb)\<close>, \<^verbatim>\<open>KVG(k)\<close> returns exactly \<open>vb\<close>, the second upsert answering
  \<^verbatim>\<open>OKUPD\<close>.  The five memories are what the five requests find at \<^verbatim>\<open>&pass\<close> and behind
  their digest buffers.
\<close>

theorem kv_roundtrip:
  assumes a1: "auth_p3 MD5 key_hash mem_kvi st u p = Some True"
    and a2: "auth_p3 MD5 key_hash mem_kvg st u p = Some True"
    and a3: "auth_p3 MD5 key_hash mem_kvu st u p = Some True"
    and a4: "auth_p3 MD5 key_hash mem_kvv st u p = Some True"
    and a5: "auth_p3 MD5 key_hash mem_kvw st u p = Some True"
    and ne: "kv_store st \<noteq> []"
    and free: "mtx (kv_store st ! (key_hash k mod length (kv_store st))) = 0"
    and opn: "is_open (f_ptr st)"
  shows "(case kv_insert_p3 MD5 key_hash mem_kvi st u p k v of
            None \<Rightarrow> False
          | Some (r, st1) \<Rightarrow>
              (if find_key k (elements (kv_store st ! (key_hash k mod length (kv_store st)))) = None
               then r = RES_OK \<and> kv_get_p3 MD5 key_hash mem_kvg st1 u p k = Some (False, v)
               else r = RES_ERR_KEY \<and> st1 = st))
       \<and> (case kv_upsert_p3 MD5 key_hash mem_kvu st u p k va of
            None \<Rightarrow> False
          | Some (r1, st1) \<Rightarrow>
              (case kv_upsert_p3 MD5 key_hash mem_kvv st1 u p k vb of
                 None \<Rightarrow> False
               | Some (r2, st2) \<Rightarrow>
                   r2 = RES_OKUPD \<and> kv_get_p3 MD5 key_hash mem_kvw st2 u p k = Some (False, vb)))"
proof
  let ?b = "key_hash k mod length (kv_store st)"
  show "case kv_insert_p3 MD5 key_hash mem_kvi st u p k v of
            None \<Rightarrow> False
          | Some (r, st1) \<Rightarrow>
              (if find_key k (elements (kv_store st ! ?b)) = None
               then r = RES_OK \<and> kv_get_p3 MD5 key_hash mem_kvg st1 u p k = Some (False, v)
               else r = RES_ERR_KEY \<and> st1 = st)"
  proof (cases "find_key k (elements (kv_store st ! ?b))")
    case None
    with a1 ne free opn
      kv_insert_step [where key_hash = key_hash and mem = mem_kvi and st = st
        and u = u and p = p and k = k and v = v]
    obtain st1 where
      i: "kv_insert_p3 MD5 key_hash mem_kvi st u p k v = Some (RES_OK, st1)"
      and at: "auth_table st1 = auth_table st"
      and len: "length (kv_store st1) = length (kv_store st)"
      and fk: "find_key k (elements (kv_store st1 ! ?b)) = Some (length (elements (kv_store st ! ?b)))"
      and val: "snd (elements (kv_store st1 ! ?b) ! length (elements (kv_store st ! ?b))) = v"
      by auto
    from at a2 have a: "auth_p3 MD5 key_hash mem_kvg st1 u p = Some True"
      by (simp add: auth_p3_same_table [OF at])
    from len ne have ne1: "kv_store st1 \<noteq> []" by auto
    have "kv_get_p3 MD5 key_hash mem_kvg st1 u p k = Some (False, v)"
      using kv_get_found [OF a ne1, of k "length (elements (kv_store st ! ?b))"] fk val len
      by simp
    with None i show ?thesis by simp
  next
    case (Some i)
    with a1 ne free opn
      kv_insert_step [where key_hash = key_hash and mem = mem_kvi and st = st
        and u = u and p = p and k = k and v = v]
    show ?thesis by simp
  qed
next
  let ?b = "key_hash k mod length (kv_store st)"
  obtain st1 i1 where u1: "kv_upsert_p3 MD5 key_hash mem_kvu st u p k va
        = Some (if find_key k (elements (kv_store st ! ?b)) = None
                then RES_OKINS else RES_OKUPD, st1)"
    and at1: "auth_table st1 = auth_table st"
    and len1: "length (kv_store st1) = length (kv_store st)"
    and fr1: "mtx (kv_store st1 ! ?b) = 0"
    and op1: "is_open (f_ptr st1)"
    and fk1: "find_key k (elements (kv_store st1 ! ?b)) = Some i1"
    using a3 ne free opn
      kv_upsert_step [where key_hash = key_hash and mem = mem_kvu and st = st
        and u = u and p = p and k = k and v = va]
    by blast
  from at1 a4 have a4': "auth_p3 MD5 key_hash mem_kvv st1 u p = Some True"
    by (simp add: auth_p3_same_table [OF at1])
  from len1 ne have ne1: "kv_store st1 \<noteq> []" by auto
  from fr1 len1 have fr1': "mtx (kv_store st1 ! (key_hash k mod length (kv_store st1))) = 0"
    by simp
  obtain st2 i2 where u2: "kv_upsert_p3 MD5 key_hash mem_kvv st1 u p k vb
        = Some (if find_key k (elements (kv_store st1
                      ! (key_hash k mod length (kv_store st1)))) = None
                then RES_OKINS else RES_OKUPD, st2)"
    and at2: "auth_table st2 = auth_table st1"
    and len2: "length (kv_store st2) = length (kv_store st1)"
    and fk2: "find_key k (elements (kv_store st2 ! (key_hash k mod length (kv_store st1)))) = Some i2"
    and val2: "snd (elements (kv_store st2 ! (key_hash k mod length (kv_store st1))) ! i2) = vb"
    using a4' ne1 fr1' op1
      kv_upsert_step [where key_hash = key_hash and mem = mem_kvv and st = st1
        and u = u and p = p and k = k and v = vb]
    by blast
  from fk1 len1 have r2: "(if find_key k (elements (kv_store st1
                      ! (key_hash k mod length (kv_store st1)))) = None
                then RES_OKINS else RES_OKUPD) = RES_OKUPD"
    by simp
  from at2 at1 a5 have a5': "auth_p3 MD5 key_hash mem_kvw st2 u p = Some True"
    using auth_p3_same_table [of st2 st MD5 key_hash mem_kvw u p] by simp
  from len2 ne1 have ne2: "kv_store st2 \<noteq> []" by auto
  have g: "kv_get_p3 MD5 key_hash mem_kvw st2 u p k = Some (False, vb)"
    using kv_get_found [OF a5' ne2, of k i2] fk2 val2 len2 by simp
  show "case kv_upsert_p3 MD5 key_hash mem_kvu st u p k va of
            None \<Rightarrow> False
          | Some (r1, st1) \<Rightarrow>
              (case kv_upsert_p3 MD5 key_hash mem_kvv st1 u p k vb of
                 None \<Rightarrow> False
               | Some (r2, st2) \<Rightarrow>
                   r2 = RES_OKUPD \<and> kv_get_p3 MD5 key_hash mem_kvw st2 u p k = Some (False, vb))"
    using u1 u2 r2 g by simp
qed

lemma registered_kv_store:
  "kv_store registered_store = replicate 4 \<lparr>mtx = 0, elements = []\<rparr>"
  by (simp add: registered_store_eq)

lemma registered_open: "is_open (f_ptr registered_store)"
  by (simp add: registered_store_eq is_open_def)

lemma registered_insert:
  "kv_insert_p3 sample_digest length req_memory registered_store ''bob'' ''pw'' ''k'' ''w''
     = Some (RES_OK,
             registered_store
               \<lparr>kv_store := (replicate 4 \<lparr>mtx = 0, elements = []\<rparr>)
                              [1 := \<lparr>mtx = 0, elements = [(''k'', ''w'')]\<rparr>],
                f_ptr := Writable (AUTHENTRY @ le32 (length ''bob'') @ ''bob'' @ le32 16
                                   @ md5_digest sample_digest reg_memory ''pw'' @ le32 0
                                   @ KVENTRY @ le32 (length ''k'') @ ''k''
                                   @ le32 (length ''w'') @ ''w'')\<rparr>)"
  by (simp add: kv_insert_p3_def registered_auth)
     (simp add: registered_store_eq insert_p3_def log_append_def fwrite_def)

lemma example_store_kv:
  "kv_store example_store
     = (replicate 4 \<lparr>mtx = 0, elements = []\<rparr>)[1 := \<lparr>mtx = 0, elements = [(''k'', ''w'')]\<rparr>]"
  by (simp add: example_store_def registered_insert)

lemma example_store_auth_table: "auth_table example_store = auth_table registered_store"
  by (simp add: example_store_def registered_insert)

lemma example_store_filename: "filename example_store = ''db''"
  by (simp add: example_store_def registered_insert) (simp add: registered_store_eq)

lemma example_store_open: "is_open (f_ptr example_store)"
  by (simp add: example_store_def registered_insert is_open_def)

lemma example_auth:
  "auth_p3 sample_digest length req_memory example_store ''bob'' ''pw'' = Some True"
  using registered_auth auth_p3_same_table [OF example_store_auth_table] by simp

theorem kv_roundtrip_witness:
  "auth_p3 sample_digest length req_memory registered_store ''bob'' ''pw'' = Some True
   \<and> kv_store registered_store \<noteq> []
   \<and> mtx (kv_store registered_store ! (length ''k'' mod length (kv_store registered_store))) = 0
   \<and> is_open (f_ptr registered_store)
   \<and> (\<exists>st1. kv_insert_p3 sample_digest length req_memory registered_store ''bob'' ''pw'' ''k'' ''v''
               = Some (RES_OK, st1)
           \<and> kv_get_p3 sample_digest length req_memory st1 ''bob'' ''pw'' ''k'' = Some (False, ''v''))
   \<and> (\<exists>r1 st1 st2.
          kv_upsert_p3 sample_digest length req_memory registered_store ''bob'' ''pw'' ''k'' ''v1''
            = Some (r1, st1)
          \<and> kv_upsert_p3 sample_digest length req_memory st1 ''bob'' ''pw'' ''k'' ''v2''
            = Some (RES_OKUPD, st2)
          \<and> kv_get_p3 sample_digest length req_memory st2 ''bob'' ''pw'' ''k'' = Some (False, ''v2''))"
proof -
  have a: "auth_p3 sample_digest length req_memory registered_store ''bob'' ''pw'' = Some True"
    by (rule registered_auth)
  have n: "kv_store registered_store \<noteq> []"
    by (simp add: registered_store_eq)
  have fr: "mtx (kv_store registered_store
              ! (length ''k'' mod length (kv_store registered_store))) = 0"
    by (simp add: registered_store_eq)
  have o: "is_open (f_ptr registered_store)"
    by (rule registered_open)
  have f: "find_key ''k'' (elements (kv_store registered_store
             ! (length ''k'' mod length (kv_store registered_store)))) = None"
    by (simp add: registered_store_eq)
  let ?ins = "kv_insert_p3 sample_digest length req_memory registered_store ''bob'' ''pw'' ''k'' ''v''"
  let ?up1 = "kv_upsert_p3 sample_digest length req_memory registered_store ''bob'' ''pw'' ''k'' ''v1''"
  from kv_roundtrip [where key_hash = length and st = registered_store and u = "''bob''"
      and p = "''pw''" and k = "''k''" and v = "''v''" and va = "''v1''" and vb = "''v2''"
      and mem_kvi = req_memory and mem_kvg = req_memory and mem_kvu = req_memory
      and mem_kvv = req_memory and mem_kvw = req_memory, OF a a a a a n fr o]
  have i: "case ?ins of
             None \<Rightarrow> False
           | Some (r, st1) \<Rightarrow>
               (if find_key ''k'' (elements (kv_store registered_store
                     ! (length ''k'' mod length (kv_store registered_store)))) = None
                then r = RES_OK
                   \<and> kv_get_p3 sample_digest length req_memory st1 ''bob'' ''pw'' ''k''
                       = Some (False, ''v'')
                else r = RES_ERR_KEY \<and> st1 = registered_store)"
    and u: "case ?up1 of
              None \<Rightarrow> False
            | Some (r1, st1) \<Rightarrow>
                (case kv_upsert_p3 sample_digest length req_memory st1 ''bob'' ''pw'' ''k'' ''v2'' of
                   None \<Rightarrow> False
                 | Some (r2, st2) \<Rightarrow>
                     r2 = RES_OKUPD
                     \<and> kv_get_p3 sample_digest length req_memory st2 ''bob'' ''pw'' ''k''
                         = Some (False, ''v2''))"
    by simp_all
  from i f have c1: "\<exists>st1. ?ins = Some (RES_OK, st1)
        \<and> kv_get_p3 sample_digest length req_memory st1 ''bob'' ''pw'' ''k'' = Some (False, ''v'')"
    by (cases ?ins) auto
  from u obtain r1 st1 where u1: "?up1 = Some (r1, st1)"
    and u2: "case kv_upsert_p3 sample_digest length req_memory st1 ''bob'' ''pw'' ''k'' ''v2'' of
               None \<Rightarrow> False
             | Some (r2, st2) \<Rightarrow>
                 r2 = RES_OKUPD
                 \<and> kv_get_p3 sample_digest length req_memory st2 ''bob'' ''pw'' ''k''
                     = Some (False, ''v2'')"
    by (cases ?up1) auto
  from u2 obtain st2 where
    u3: "kv_upsert_p3 sample_digest length req_memory st1 ''bob'' ''pw'' ''k'' ''v2''
           = Some (RES_OKUPD, st2)"
    and g: "kv_get_p3 sample_digest length req_memory st2 ''bob'' ''pw'' ''k'' = Some (False, ''v2'')"
    by (cases "kv_upsert_p3 sample_digest length req_memory st1 ''bob'' ''pw'' ''k'' ''v2''") auto
  from a n fr o c1 u1 u3 g show ?thesis by blast
qed

text \<open>
  C4, as stated, fails where the key is already present: in the store that maps
  \<^verbatim>\<open>k\<close> to \<^verbatim>\<open>w\<close>, an authenticated \<^verbatim>\<open>KVI(k, v)\<close> answers
  \<^verbatim>\<open>ERR_KEY\<close> and the following \<^verbatim>\<open>KVG(k)\<close> returns \<^verbatim>\<open>w\<close>, not
  \<^verbatim>\<open>v\<close>.
\<close>

theorem kv_insert_present_key_counterexample:
  "auth_p3 sample_digest length req_memory example_store ''bob'' ''pw'' = Some True
   \<and> kv_insert_p3 sample_digest length req_memory example_store ''bob'' ''pw'' ''k'' ''v''
       = Some (RES_ERR_KEY, example_store)
   \<and> kv_get_p3 sample_digest length req_memory example_store ''bob'' ''pw'' ''k''
       = Some (False, ''w'')
   \<and> kv_get_p3 sample_digest length req_memory example_store ''bob'' ''pw'' ''k''
       \<noteq> Some (False, ''v'')"
proof -
  have fk: "find_key ''k'' (elements (kv_store example_store
              ! (length ''k'' mod length (kv_store example_store)))) = Some 0"
    by (simp add: example_store_kv)
  have ne: "kv_store example_store \<noteq> []"
    by (simp add: example_store_kv)
  have fr: "mtx (kv_store example_store ! (length ''k'' mod length (kv_store example_store))) = 0"
    by (simp add: example_store_kv)
  have i: "kv_insert_p3 sample_digest length req_memory example_store ''bob'' ''pw'' ''k'' ''v''
             = Some (RES_ERR_KEY, example_store)"
    using example_auth ne fr example_store_open fk
      kv_insert_step [where key_hash = length and mem = req_memory and st = example_store
        and u = "''bob''" and p = "''pw''" and k = "''k''" and v = "''v''"]
    by simp
  have g: "kv_get_p3 sample_digest length req_memory example_store ''bob'' ''pw'' ''k''
             = Some (False, ''w'')"
    using kv_get_found [OF example_auth ne, of "''k''" 0] fk by (simp add: example_store_kv)
  from example_auth i g show ?thesis by simp
qed

text \<open>
  What the hypotheses of the amended C4 keep out.  A \<^verbatim>\<open>KVD\<close> of a key that is not
  stored answers \<^verbatim>\<open>ERR_KEY\<close> and leaves the bucket's lock held, after which a
  \<^verbatim>\<open>KVI\<close> or \<^verbatim>\<open>KVU\<close> of that key has no result; and after a snapshot the data
  file handle is closed, so a \<^verbatim>\<open>KVI\<close> of a new key has none either.
\<close>

lemma kv_insert_after_missing_delete:
  "(case kv_delete_p3 sample_digest length req_memory registered_store ''bob'' ''pw'' ''k'' of
      None \<Rightarrow> False
    | Some (r, st1) \<Rightarrow>
        r = RES_ERR_KEY
        \<and> kv_insert_p3 sample_digest length req_memory st1 ''bob'' ''pw'' ''k'' ''v'' = None
        \<and> kv_upsert_p3 sample_digest length req_memory st1 ''bob'' ''pw'' ''k'' ''v'' = None)"
proof -
  have d: "kv_delete_p3 sample_digest length req_memory registered_store ''bob'' ''pw'' ''k''
             = Some (RES_ERR_KEY,
                     registered_store\<lparr>kv_store :=
                       (replicate 4 \<lparr>mtx = 0, elements = []\<rparr>)[1 := \<lparr>mtx = 1, elements = []\<rparr>]\<rparr>)"
    by (simp add: kv_delete_p3_def registered_auth remove_p3_def registered_kv_store)
  let ?st1 = "registered_store\<lparr>kv_store :=
                (replicate 4 \<lparr>mtx = 0, elements = []\<rparr>)[1 := \<lparr>mtx = 1, elements = []\<rparr>]\<rparr>"
  have a: "auth_p3 sample_digest length req_memory ?st1 ''bob'' ''pw'' = Some True"
    using registered_auth auth_p3_same_table [of ?st1 registered_store] by simp
  have "kv_insert_p3 sample_digest length req_memory ?st1 ''bob'' ''pw'' ''k'' ''v'' = None"
    and "kv_upsert_p3 sample_digest length req_memory ?st1 ''bob'' ''pw'' ''k'' ''v'' = None"
    using a by (simp_all add: kv_insert_p3_def kv_upsert_p3_def insert_p3_def upsert_p3_def)
  with d show ?thesis by simp
qed

lemma persist_p3_closes:
  "is_open (f_ptr st) \<Longrightarrow> \<exists>d. persist_p3 st disk = Some (st\<lparr>f_ptr := Closed\<rparr>, d)"
  by (auto simp: persist_p3_def is_open_def split: prod.splits)

lemma kv_insert_after_persist:
  "(case persist_p3 registered_store disk of
      None \<Rightarrow> False
    | Some (st1, disk1) \<Rightarrow>
        f_ptr st1 = Closed
        \<and> kv_insert_p3 sample_digest length req_memory st1 ''bob'' ''pw'' ''k'' ''v'' = None)"
proof -
  obtain d where p: "persist_p3 registered_store disk = Some (registered_store\<lparr>f_ptr := Closed\<rparr>, d)"
    using persist_p3_closes [OF registered_open] by blast
  let ?st1 = "registered_store\<lparr>f_ptr := Closed\<rparr>"
  have a: "auth_p3 sample_digest length req_memory ?st1 ''bob'' ''pw'' = Some True"
    using registered_auth auth_p3_same_table [of ?st1 registered_store] by simp
  have "kv_insert_p3 sample_digest length req_memory ?st1 ''bob'' ''pw'' ''k'' ''v'' = None"
    using a
    by (simp add: kv_insert_p3_def insert_p3_def registered_kv_store log_append_def fwrite_def)
  with p show ?thesis by simp
qed

subsection \<open>Snapshots\<close>

lemma tmp_name_differs: "name @ ''.tmp'' \<noteq> name"
  by simp

lemma persist_p1_keeps_file: "persist_p1 st disk (filename_p1 st) = disk (filename_p1 st)"
  by (simp add: persist_p1_def write_file_def)

lemma persist_p3_example:
  "map_option (\<lambda>(st, d). d ''db'') (persist_p3 example_store disk)
     = Some (Some (kv_record ''k'' ''w''
             @ auth_record \<lparr>username = ''bob'',
                            pass_hash = [CHR 0x40, CHR 0xE1] @ ''..............''
                                        @ [CHR 0x90, CHR 0xE1],
                            content = []\<rparr>))"
proof -
  have o: "f_ptr example_store \<noteq> Uninitialised \<and> f_ptr example_store \<noteq> Closed"
    using example_store_open by (auto simp: is_open_def)
  show ?thesis
    using o
    by (simp add: persist_p3_def example_store_kv example_store_auth_table example_store_filename
        registered_store_eq hashed_reg do_all_readonly_p3_def write_file_def rename_file_def
        numeral_eq_Suc)
qed

text \<open>
  C3.  The claim: \<^verbatim>\<open>persist\<close> writes every auth entry, then every key/value pair,
  to \<^verbatim>\<open>filename.tmp\<close> and renames it, so that \<^verbatim>\<open>filename\<close> holds the
  snapshot on return.  The code of p1, on a store of one user and an empty disk: the
  record is in \<^verbatim>\<open>db.tmp\<close> and no file \<^verbatim>\<open>db\<close> exists.  The code of p3 does
  rename, and on every disk its file holds the key/value record before the auth record.
\<close>

theorem persist_p1_never_installs_snapshot:
  "persist_p1 alice_p1 Map.empty ''db'' = None
   \<and> persist_p1 alice_p1 Map.empty ''db.tmp''
       = Some (''AUTHAUTH'' @ le32 5 @ ''alice'' @ le32 32 @ ''8fe4c11451281c094a6578e6ddbf5eed''
               @ le32 5 @ ''hello'')
   \<and> map_option (\<lambda>(st, d). d ''db'') (persist_p3 example_store disk)
       = Some (Some (kv_record ''k'' ''w''
               @ auth_record \<lparr>username = ''bob'',
                              pass_hash = [CHR 0x40, CHR 0xE1] @ ''..............''
                                          @ [CHR 0x90, CHR 0xE1],
                              content = []\<rparr>))"
  by (simp only: persist_p3_example)
     (simp add: persist_p1_def alice_p1_def write_file_def AUTHENTRY_def le32_def byte_def)

subsection \<open>The command handlers of p1\<close>

lemma read_range_length: "length (read_range req oob start n) = n"
  by (simp add: read_range_def)

lemma reg_bounds_violation:
  assumes nl: "scan_newline req oob 0 (read_at req oob 0) < length req"
    and bad: "scan_newline req oob 0 (read_at req oob 0) = 0
         \<or> scan_newline req oob 0 (read_at req oob 0) > LEN_UNAME
         \<or> length req - scan_newline req oob 0 (read_at req oob 0) - 1 = 0
         \<or> length req - scan_newline req oob 0 (read_at req oob 0) - 1 > LEN_PASS"
  shows "server_cmd_reg MD5 pos storage req oob = Some (RES_ERR_MSG_FMT, storage)"
proof -
  define i where "i = scan_newline req oob 0 (read_at req oob 0)"
  from nl have a: "\<not> length req < Suc i" by (simp add: i_def)
  from bad have b: "i = 0 \<or> i > LEN_UNAME \<or> length req - i - 1 = 0 \<or> length req - i - 1 > LEN_PASS"
    by (simp only: i_def)
  have "server_cmd_reg MD5 pos storage req oob =
     (let user = read_range req oob 0 i
      in if length req < Suc i then None
         else
           let pass = read_range req oob (Suc i) (length req - i - 1)
           in if length user = 0 \<or> length pass = 0
                 \<or> length user > LEN_UNAME \<or> length pass > LEN_PASS
              then Some (RES_ERR_MSG_FMT, storage)
              else case add_user_p1 MD5 pos storage user pass of
                     (added, storage1) \<Rightarrow>
                       Some (if \<not> added then RES_ERR_USER_EXISTS else RES_OK, storage1))"
    by (simp only: server_cmd_reg_def Let_def i_def)
  with a b show ?thesis
    by (simp only: Let_def read_range_length if_False) auto
qed

text \<open>
  C9.  The claim: a request with a field outside its length bounds is answered with
  \<^verbatim>\<open>ERR_MSG_FMT\<close>, in particular a GET with an empty user.  The code, on the
  GET body with an empty user, the password \<^verbatim>\<open>pw\<close> and \<^verbatim>\<open>alice\<close> as
  \<^verbatim>\<open>who\<close>, for every digest and every content of the memory behind the
  buffers: the reply starts with \<^verbatim>\<open>ERR_LOGIN\<close> and is not \<^verbatim>\<open>ERR_MSG_FMT\<close>.
\<close>

theorem get_with_empty_user_replies_login_error:
  "server_cmd_get MD5 alice_p1 ([newline] @ ''pw'' @ [newline] @ ''alice'') oob after
     = Some (''ERR_LOGIN'' @ takeWhile (\<lambda>c. c \<noteq> CHR 0x00) after)
   \<and> server_cmd_get MD5 alice_p1 ([newline] @ ''pw'' @ [newline] @ ''alice'') oob after
     \<noteq> Some RES_ERR_MSG_FMT"
  by (simp add: server_cmd_get_def alice_p1_def get_user_data_p1_def read_at_def read_range_def
      newline_def Let_def c_str_def RES_ERR_LOGIN_def RES_ERR_MSG_FMT_def)

end
